theory Spec2Isabelle
  imports Main "HOL-Library.Product_Lexorder"
begin

section \<open>Extended attributes of scoutfs: the code of xattr.c\<close>

text \<open>
  An extended attribute is packed into one or more items of the ordered item store.
  The development follows \<^verbatim>\<open>xattr.c\<close> function by function.  Return codes are
  values of a sum type: \<open>Inl e\<close> is the C return value \<open>-e\<close>, \<open>Inr n\<close> a
  non-negative return value \<open>n\<close>.  Functions that return only \<open>0\<close> or an error
  return an \<open>errno option\<close>, \<open>None\<close> being \<open>0\<close>.
\<close>

subsection \<open>Error codes, bytes and keys\<close>

datatype errno =
  ENOENT | EIO | ENOMEM | EEXIST | EINVAL | E2BIG | ERANGE | ENODATA | EOPNOTSUPP | ENOSPC

text \<open>A byte is a \<^typ>\<open>char\<close>; C strings and byte buffers are \<^typ>\<open>string\<close>s.  A name is
  the bytes of the C string before its terminating NUL, so \<open>strlen\<close> is \<open>length\<close>.\<close>

definition U32_MAX :: nat where
  "U32_MAX = 4294967295"

definition U64_MAX :: nat where
  "U64_MAX = 18446744073709551615"

text \<open>
  The constants of \<^verbatim>\<open>format.h\<close> and the hash of \<^verbatim>\<open>linux/crc32c.h\<close> are not part of
  the source file; they are parameters of every function that uses them.
\<close>

record params =
  SCOUTFS_XATTR_MAX_NAME_LEN :: nat
  SCOUTFS_XATTR_MAX_VAL_LEN :: nat
  SCOUTFS_XATTR_MAX_PART_SIZE :: nat
  crc32c :: "nat \<Rightarrow> string \<Rightarrow> nat"

text \<open>
  A key of an xattr item is \<open>(skx_ino, skx_name_hash, skx_id, skx_part)\<close>; the zone and
  the type are the same in every key that \<open>init_xattr_key\<close> builds.  Keys are compared
  field by field in this order, which is the order of the product type.
\<close>

type_synonym scoutfs_key = "nat \<times> nat \<times> nat \<times> nat"

fun skx_ino :: "scoutfs_key \<Rightarrow> nat" where
  "skx_ino (i, h, d, p) = i"

fun skx_name_hash :: "scoutfs_key \<Rightarrow> nat" where
  "skx_name_hash (i, h, d, p) = h"

fun skx_id :: "scoutfs_key \<Rightarrow> nat" where
  "skx_id (i, h, d, p) = d"

fun skx_part :: "scoutfs_key \<Rightarrow> nat" where
  "skx_part (i, h, d, p) = p"

fun set_part :: "scoutfs_key \<Rightarrow> nat \<Rightarrow> scoutfs_key" where
  "set_part (i, h, d, p) q = (i, h, d, q)"

text \<open>\<open>le64_add_cpu(&key->skx_id, 1)\<close>: the identifier is a 64-bit field and wraps.\<close>

fun add_id :: "scoutfs_key \<Rightarrow> scoutfs_key" where
  "add_id (i, h, d, p) = (i, h, (d + 1) mod 2 ^ 64, p)"

definition xattr_name_hash :: "params \<Rightarrow> string \<Rightarrow> nat" where
  "xattr_name_hash P name = crc32c P U32_MAX name mod 2 ^ 32"

definition xattr_names_equal :: "string \<Rightarrow> nat \<Rightarrow> string \<Rightarrow> nat \<Rightarrow> bool" where
  "xattr_names_equal a_name a_len b_name b_len =
     (a_len = b_len \<and> take a_len a_name = take a_len b_name)"

definition init_xattr_key :: "nat \<Rightarrow> nat \<Rightarrow> nat \<Rightarrow> scoutfs_key" where
  "init_xattr_key ino name_hash xid = (ino, name_hash, xid, 0)"

subsection \<open>The xattr header\<close>

text \<open>
  Modelled from the spec: \<^verbatim>\<open>struct scoutfs_xattr\<close> is declared in \<^verbatim>\<open>format.h\<close>.  The
  payload of part 0 starts with the header \<open>{name_len:8, val_len:16}\<close> followed by the
  name; the code reads \<open>val_len\<close> with \<open>le16_to_cpu\<close>, so it is little-endian.  The
  header is three bytes long.
\<close>

definition sizeof_xattr :: nat where
  "sizeof_xattr = 3"

definition xat_name_len :: "string \<Rightarrow> nat" where
  "xat_name_len xat = of_char (xat ! 0)"

definition xat_val_len :: "string \<Rightarrow> nat" where
  "xat_val_len xat = of_char (xat ! 1) + 256 * of_char (xat ! 2)"

definition xat_name :: "string \<Rightarrow> string" where
  "xat_name xat = drop sizeof_xattr xat"

definition xattr_full_bytes :: "string \<Rightarrow> nat" where
  "xattr_full_bytes xat = sizeof_xattr + xat_name_len xat + xat_val_len xat"

text \<open>
  Modelled from the spec: the macro \<^verbatim>\<open>SCOUTFS_XATTR_NR_PARTS\<close> of \<^verbatim>\<open>format.h\<close>.  The
  number of parts is determined by the header, the name and the value lengths and the
  maximum part size: the encoded bytes are split into chunks of at most the part size.
\<close>

definition SCOUTFS_XATTR_NR_PARTS :: "params \<Rightarrow> nat \<Rightarrow> nat \<Rightarrow> nat" where
  "SCOUTFS_XATTR_NR_PARTS P name_len val_len =
     (sizeof_xattr + name_len + val_len + SCOUTFS_XATTR_MAX_PART_SIZE P - 1)
       div SCOUTFS_XATTR_MAX_PART_SIZE P"

definition xattr_nr_parts :: "params \<Rightarrow> string \<Rightarrow> nat" where
  "xattr_nr_parts P xat = SCOUTFS_XATTR_NR_PARTS P (xat_name_len xat) (xat_val_len xat)"

text \<open>The bytes that \<open>scoutfs_xattr_set\<close> writes into its buffer: header, name, value.
  The two header fields are narrowed to 8 and 16 bits by the assignments.\<close>

definition xattr_bytes :: "string \<Rightarrow> string \<Rightarrow> nat \<Rightarrow> string" where
  "xattr_bytes name val sz =
     [char_of (length name), char_of (sz mod 256), char_of (sz div 256)]
       @ name @ take sz val"

definition XATTR_USER_PREFIX :: string where
  "XATTR_USER_PREFIX = ''user.''"

definition XATTR_TRUSTED_PREFIX :: string where
  "XATTR_TRUSTED_PREFIX = ''trusted.''"

definition XATTR_SYSTEM_PREFIX :: string where
  "XATTR_SYSTEM_PREFIX = ''system.''"

definition XATTR_SECURITY_PREFIX :: string where
  "XATTR_SECURITY_PREFIX = ''security.''"

text \<open>\<open>strncmp(name, prefix, n)\<close> is zero exactly when the first \<open>n\<close> bytes of the name
  are the prefix.\<close>

definition unknown_prefix :: "string \<Rightarrow> bool" where
  "unknown_prefix name =
     (take (length XATTR_USER_PREFIX) name \<noteq> XATTR_USER_PREFIX \<and>
      take (length XATTR_TRUSTED_PREFIX) name \<noteq> XATTR_TRUSTED_PREFIX \<and>
      take (length XATTR_SYSTEM_PREFIX) name \<noteq> XATTR_SYSTEM_PREFIX \<and>
      take (length XATTR_SECURITY_PREFIX) name \<noteq> XATTR_SECURITY_PREFIX)"

subsection \<open>The item store\<close>

text \<open>
  Modelled from the spec: the item store of \<^verbatim>\<open>item.h\<close> is an external collaborator.
  It is an ordered key-value collection, here a list of items in ascending key order.
  \<^item> \<open>next(start_key, end_key, out_buffer)\<close> is a forward range scan that returns the
    first item whose key is not below the start key, copies as many of its bytes as
    the buffer holds, and reports not-found beyond the end key.
  \<^item> \<open>create(key, bytes)\<close> answers \<open>Ok\<close>, \<open>AlreadyExists\<close> or another error; the
    other errors are decided by the environment (\<open>create_fault\<close>).
  \<^item> \<open>delete(key)\<close> answers \<open>Ok\<close> or \<open>NotFound\<close>.
  \<^item> \<open>delete_staged(key, rollback_list)\<close> removes the item and keeps it on the list;
    for a key that is not stored it answers \<open>NotFound\<close> as \<open>delete\<close> does.
  \<^item> \<open>restore(rollback_list)\<close> reinstates the staged items; \<open>finalize\<close> discards them.
\<close>

type_synonym item = "scoutfs_key \<times> string"

type_synonym store = "item list"

definition scoutfs_item_next ::
  "store \<Rightarrow> scoutfs_key \<Rightarrow> scoutfs_key \<Rightarrow> nat \<Rightarrow> errno + (scoutfs_key \<times> string)" where
  "scoutfs_item_next its key lastk len =
     (case find (\<lambda>kv. key \<le> fst kv) its of
        None \<Rightarrow> Inl ENOENT
      | Some kv \<Rightarrow> if fst kv \<le> lastk then Inr (fst kv, take len (snd kv)) else Inl ENOENT)"

definition item_remove :: "scoutfs_key \<Rightarrow> store \<Rightarrow> store" where
  "item_remove key its = filter (\<lambda>kv. fst kv \<noteq> key) its"

definition item_insert :: "item \<Rightarrow> store \<Rightarrow> store" where
  "item_insert kv its = insort_key fst kv (item_remove (fst kv) its)"

definition scoutfs_item_create ::
  "(scoutfs_key \<Rightarrow> errno option) \<Rightarrow> store \<Rightarrow> scoutfs_key \<Rightarrow> string \<Rightarrow> errno option \<times> store" where
  "scoutfs_item_create fault its key val =
     (case fault key of
        Some e \<Rightarrow> (Some e, its)
      | None \<Rightarrow>
          if map_of its key \<noteq> None then (Some EEXIST, its)
          else (None, item_insert (key, val) its))"

definition scoutfs_item_delete :: "store \<Rightarrow> scoutfs_key \<Rightarrow> errno option \<times> store" where
  "scoutfs_item_delete its key =
     (if map_of its key = None then (Some ENOENT, its) else (None, item_remove key its))"

definition scoutfs_item_delete_dirty :: "store \<Rightarrow> scoutfs_key \<Rightarrow> store" where
  "scoutfs_item_delete_dirty its key = item_remove key its"

definition scoutfs_item_delete_save ::
  "store \<Rightarrow> scoutfs_key \<Rightarrow> item list \<Rightarrow> errno option \<times> store \<times> item list" where
  "scoutfs_item_delete_save its key saved =
     (case map_of its key of
        None \<Rightarrow> (Some ENOENT, its, saved)
      | Some v \<Rightarrow> (None, item_remove key its, (key, v) # saved))"

definition scoutfs_item_restore :: "store \<Rightarrow> item list \<Rightarrow> store" where
  "scoutfs_item_restore its saved = fold item_insert saved its"

subsection \<open>Finding the next xattr\<close>

text \<open>
  The header check of the first part, lines 161 to 167.  \<open>ret\<close> is the number of bytes
  copied, the length of \<open>data\<close>.
\<close>

definition bad_first_part :: "params \<Rightarrow> nat \<Rightarrow> string \<Rightarrow> bool" where
  "bad_first_part P name_len data =
     (length data < sizeof_xattr \<or>
      (xat_name_len data \<le> name_len \<and> length data < sizeof_xattr + xat_name_len data) \<or>
      xat_name_len data > SCOUTFS_XATTR_MAX_NAME_LEN P \<or>
      xat_val_len data > SCOUTFS_XATTR_MAX_VAL_LEN P)"

text \<open>
  The loop of \<open>get_next_xattr\<close>.  \<open>xat\<close> holds the bytes copied so far, so \<open>total\<close>
  is its length; at part 0 nothing has been kept yet.  A name that is not given
  (\<open>name_len = 0\<close>) is the empty string.  \<open>part\<close> and \<open>last_part\<close> are 8-bit
  variables.  The loop need not terminate when the identifier wraps around, so its
  result is optional.  On an error the callers use neither the key nor the buffer.
\<close>

partial_function (option) get_next_loop ::
  "params \<Rightarrow> store \<Rightarrow> string \<Rightarrow> nat \<Rightarrow> nat \<Rightarrow> scoutfs_key \<Rightarrow> scoutfs_key \<Rightarrow> string \<Rightarrow> nat \<Rightarrow> nat
     \<Rightarrow> ((errno + nat) \<times> scoutfs_key \<times> string) option" where
  "get_next_loop P its name bytes name_hash lastk key xat last_part part =
     (case scoutfs_item_next its (set_part key part) lastk (bytes - length xat) of
        Inl e \<Rightarrow> Some (Inl (if e = ENOENT \<and> part > 0 then EIO else e), set_part key part, xat)
      | Inr (fkey, data) \<Rightarrow>
          if skx_part fkey \<noteq> part then Some (Inl EIO, fkey, xat @ data)
          else if part = 0 \<and> bad_first_part P (length name) data
            then Some (Inl EIO, fkey, xat @ data)
          else if part = 0 \<and> name \<noteq> [] \<and> skx_name_hash fkey \<noteq> name_hash
            then Some (Inl ENOENT, fkey, xat @ data)
          else if part = 0 \<and> name \<noteq> [] \<and>
                  \<not> xattr_names_equal name (length name) (xat_name data) (xat_name_len data)
            then get_next_loop P its name bytes name_hash lastk (add_id fkey) xat last_part 0
          else
            let last_part' = (if part = 0 \<and> name \<noteq> []
                              then (xattr_nr_parts P data + 255) mod 256 else last_part);
                xat' = xat @ data
            in if length xat' = bytes \<or> part = last_part'
               then Some (Inr (length xat'), fkey, xat')
               else get_next_loop P its name bytes name_hash lastk fkey xat' last_part'
                      ((part + 1) mod 256))"

declare get_next_loop.simps [code]

definition get_next_xattr ::
  "params \<Rightarrow> store \<Rightarrow> nat \<Rightarrow> nat \<Rightarrow> string \<Rightarrow> nat \<Rightarrow> nat
     \<Rightarrow> ((errno + nat) \<times> scoutfs_key \<times> string) option" where
  "get_next_xattr P its ino bytes name name_hash xid =
     (if length name > 0 \<and> bytes < sizeof_xattr + length name
      then Some (Inl EINVAL, init_xattr_key ino name_hash xid, [])
      else
        let name_hash = (if length name \<noteq> 0 then xattr_name_hash P name else name_hash)
        in get_next_loop P its name bytes name_hash (init_xattr_key ino U32_MAX U64_MAX)
             (init_xattr_key ino name_hash xid) [] 0 0)"

subsection \<open>Creating and deleting the items of one xattr\<close>

text \<open>The clean-up loop \<open>while (key.skx_part-- > 0) scoutfs_item_delete_dirty(sb, &key)\<close>:
  it deletes the parts below the one that failed, in descending order.\<close>

primrec create_xattr_undo :: "store \<Rightarrow> scoutfs_key \<Rightarrow> nat \<Rightarrow> store" where
  "create_xattr_undo its key 0 = its"
| "create_xattr_undo its key (Suc p) =
     create_xattr_undo (scoutfs_item_delete_dirty its (set_part key p)) key p"

text \<open>
  The loop of \<open>create_xattr_items\<close>.  The part size is a positive constant; for a part
  size of zero the model stops at once, where the C loop would create empty items
  until the 8-bit part index wraps around and the creation fails.
\<close>

function create_xattr_loop ::
  "params \<Rightarrow> (scoutfs_key \<Rightarrow> errno option) \<Rightarrow> store \<Rightarrow> scoutfs_key \<Rightarrow> string \<Rightarrow> nat \<Rightarrow> nat
     \<Rightarrow> errno option \<times> store" where
  "create_xattr_loop P fault its key xat bytes tot =
     (if tot < bytes \<and> 0 < SCOUTFS_XATTR_MAX_PART_SIZE P then
        let part_bytes = min (bytes - tot) (SCOUTFS_XATTR_MAX_PART_SIZE P) in
        case scoutfs_item_create fault its key (take part_bytes (drop tot xat)) of
          (Some e, its') \<Rightarrow> (Some e, create_xattr_undo its' key (skx_part key))
        | (None, its') \<Rightarrow>
            create_xattr_loop P fault its' (set_part key ((skx_part key + 1) mod 256))
              xat bytes (tot + part_bytes)
      else (None, its))"
  by pat_completeness auto
termination
  by (relation "measure (\<lambda>(P, fault, its, key, xat, bytes, tot). bytes - tot)") auto

definition create_xattr_items ::
  "params \<Rightarrow> (scoutfs_key \<Rightarrow> errno option) \<Rightarrow> store \<Rightarrow> nat \<Rightarrow> nat \<Rightarrow> string \<Rightarrow> nat
     \<Rightarrow> errno option \<times> store" where
  "create_xattr_items P fault its ino xid xat bytes =
     create_xattr_loop P fault its
       (init_xattr_key ino (xattr_name_hash P (take (xat_name_len xat) (xat_name xat))) xid)
       xat bytes 0"

text \<open>The loop of \<open>delete_xattr_items\<close>: \<open>do ... while (ret == 0 && ++key.skx_part < nr_parts)\<close>
  with an 8-bit part index.  Every pass that goes on has removed an item.\<close>

function delete_xattr_loop ::
  "store \<Rightarrow> scoutfs_key \<Rightarrow> nat \<Rightarrow> item list \<Rightarrow> errno option \<times> store \<times> item list" where
  "delete_xattr_loop its key nr_parts saved =
     (case scoutfs_item_delete_save its key saved of
        (Some e, its', saved') \<Rightarrow> (Some e, its', saved')
      | (None, its', saved') \<Rightarrow>
          let part' = (skx_part key + 1) mod 256 in
          if part' < nr_parts then delete_xattr_loop its' (set_part key part') nr_parts saved'
          else (None, its', saved'))"
  by pat_completeness auto
termination
proof (relation "measure (\<lambda>(its, key, nr_parts, saved). length its)", goal_cases)
  case 1
  then show ?case by simp
next
  case (2 its key nr_parts saved x1 x2 y1 y2 part')
  have shorter: "map_of xs k = Some v \<Longrightarrow> length (item_remove k xs) < length xs"
    for xs :: store and k v
  proof (induction xs)
    case Nil
    then show ?case by simp
  next
    case (Cons a xs)
    show ?case
    proof (cases "fst a = k")
      case True
      then show ?thesis by (simp add: item_remove_def less_Suc_eq_le)
    next
      case False
      then have "map_of xs k = Some v" using Cons.prems by (cases a) auto
      then show ?thesis using Cons.IH False by (simp add: item_remove_def)
    qed
  qed
  from 2 show ?case
    by (auto simp: scoutfs_item_delete_save_def shorter split: option.splits)
qed

definition delete_xattr_items ::
  "store \<Rightarrow> nat \<Rightarrow> nat \<Rightarrow> nat \<Rightarrow> nat \<Rightarrow> item list \<Rightarrow> errno option \<times> store \<times> item list" where
  "delete_xattr_items its ino name_hash xid nr_parts saved =
     delete_xattr_loop its (init_xattr_key ino name_hash xid) (nr_parts mod 256) saved"

subsection \<open>The inode, the environment and the trace of external calls\<close>

text \<open>
  The state is what the functions read and write through their \<open>dentry\<close>: the inode
  number, the counter \<open>si->next_xattr_id\<close>, the inode version, and the item store of the
  super block.  The trace records, in order, the calls to the lock manager and to the
  transaction manager, and the items that \<open>scoutfs_xattr_drop\<close> deletes.  The local
  rwsem is taken right after the cluster lock and dropped right before it, so it has
  no event of its own.
\<close>

datatype lock_mode = DLM_LOCK_PR | DLM_LOCK_EX

datatype event =
  EvLockInode lock_mode
| EvUnlock lock_mode
| EvHoldTrans
| EvReleaseTrans
| EvItemDelete scoutfs_key

record fs_state =
  i_ino :: nat
  next_xattr_id :: nat
  i_version :: nat
  items :: store
  trace :: "event list"

definition log_events :: "event list \<Rightarrow> fs_state \<Rightarrow> fs_state" where
  "log_events evs s = s\<lparr>trace := trace s @ evs\<rparr>"

text \<open>
  Modelled from the spec: the lock manager, the transaction manager and the allocator
  are external.  Their answers are inputs of a call: whether \<open>kmalloc\<close> fails, the
  error of \<open>scoutfs_lock_inode\<close>, the answer to the \<open>n\<close>-th attempt to start and hold
  the index transaction (busy, an error, or success), the error of
  \<open>scoutfs_dirty_inode_item\<close>, the error that the item store gives to the creation of
  a key, and the error of \<open>scoutfs_hold_trans\<close> before the deletion of a key.
\<close>

datatype hold_res = HoldOk | HoldBusy | HoldErr errno

record env =
  kmalloc_fails :: bool
  lock_inode_ret :: "errno option"
  index_hold_ret :: "nat \<Rightarrow> hold_res"
  dirty_inode_ret :: "errno option"
  create_fault :: "scoutfs_key \<Rightarrow> errno option"
  hold_trans_ret :: "scoutfs_key \<Rightarrow> errno option"

subsection \<open>scoutfs\_getxattr\<close>

definition scoutfs_getxattr ::
  "params \<Rightarrow> env \<Rightarrow> fs_state \<Rightarrow> string \<Rightarrow> string \<Rightarrow> nat
     \<Rightarrow> (((errno + nat) \<times> string) \<times> fs_state) option" where
  "scoutfs_getxattr P E s name buffer sz =
     (if unknown_prefix name then Some ((Inl EOPNOTSUPP, buffer), s)
      else if length name > SCOUTFS_XATTR_MAX_NAME_LEN P then Some ((Inl ENODATA, buffer), s)
      else
        let bytes = (sizeof_xattr + length name + sz) mod 2 ^ 32 in
        if kmalloc_fails E then Some ((Inl ENOMEM, buffer), s)
        else case lock_inode_ret E of
          Some e \<Rightarrow> Some ((Inl e, buffer), s)
        | None \<Rightarrow>
            (case get_next_xattr P (items s) (i_ino s) bytes name 0 0 of
               None \<Rightarrow> None
             | Some (ret, key, xat) \<Rightarrow>
                 Some
                  ((case ret of
                      Inl e \<Rightarrow> (Inl (if e = ENOENT then ENODATA else e), buffer)
                    | Inr n \<Rightarrow>
                        if sz = 0 then (Inr (xat_val_len xat), buffer)
                        else if sz < xat_val_len xat then (Inl ERANGE, buffer)
                        else if n < xattr_full_bytes xat then (Inl EIO, buffer)
                        else (Inr (xat_val_len xat),
                              take (xat_val_len xat) (drop (xat_name_len xat) (xat_name xat))
                                @ drop (xat_val_len xat) buffer)),
                   log_events [EvLockInode DLM_LOCK_PR, EvUnlock DLM_LOCK_PR] s)))"

subsection \<open>scoutfs\_xattr\_set, scoutfs\_setxattr and scoutfs\_removexattr\<close>

definition XATTR_CREATE :: int where
  "XATTR_CREATE = 1"

definition XATTR_REPLACE :: int where
  "XATTR_REPLACE = 2"

text \<open>The retry loop around the start of the index transaction: a positive answer
  means busy and the attempt is repeated, without a bound.\<close>

partial_function (option) index_hold_retry :: "(nat \<Rightarrow> hold_res) \<Rightarrow> nat \<Rightarrow> hold_res option" where
  "index_hold_retry f n =
     (case f n of
        HoldBusy \<Rightarrow> index_hold_retry f (Suc n)
      | HoldOk \<Rightarrow> Some HoldOk
      | HoldErr e \<Rightarrow> Some (HoldErr e))"

declare index_hold_retry.simps [code]

text \<open>Lines 445 to 456: the old items are deleted and saved, the new items are created,
  and on an error the saved items are restored.\<close>

definition xattr_set_items ::
  "params \<Rightarrow> (scoutfs_key \<Rightarrow> errno option) \<Rightarrow> store \<Rightarrow> nat \<Rightarrow> scoutfs_key \<Rightarrow> nat \<Rightarrow> bool \<Rightarrow> nat
     \<Rightarrow> string \<Rightarrow> nat \<Rightarrow> errno option \<times> store" where
  "xattr_set_items P fault its ino key found_parts has_value xid xat bytes =
     (let (ret, its1, saved) =
            (if found_parts \<noteq> 0
             then delete_xattr_items its ino (skx_name_hash key) (skx_id key) found_parts []
             else (None, its, []));
          (ret, its2) =
            (if has_value \<and> ret = None
             then create_xattr_items P fault its1 ino xid xat bytes
             else (ret, its1))
      in if ret \<noteq> None then (ret, scoutfs_item_restore its2 saved) else (None, its2))"

definition scoutfs_xattr_set ::
  "params \<Rightarrow> env \<Rightarrow> fs_state \<Rightarrow> string \<Rightarrow> string option \<Rightarrow> nat \<Rightarrow> int
     \<Rightarrow> (errno option \<times> fs_state) option" where
  "scoutfs_xattr_set P E s name val sz flags =
     (let name_len = length name in
      if name_len > SCOUTFS_XATTR_MAX_NAME_LEN P then Some (Some ERANGE, s)
      else if val \<noteq> None \<and> sz > SCOUTFS_XATTR_MAX_VAL_LEN P then Some (Some E2BIG, s)
      else if (and flags XATTR_CREATE \<noteq> 0 \<and> and flags XATTR_REPLACE \<noteq> 0) \<or>
              and flags (not (or XATTR_CREATE XATTR_REPLACE)) \<noteq> 0
        then Some (Some EINVAL, s)
      else if unknown_prefix name then Some (Some EOPNOTSUPP, s)
      else
        let bytes = (sizeof_xattr + name_len + sz) mod 2 ^ 32 in
        if kmalloc_fails E then Some (Some ENOMEM, s)
        else case lock_inode_ret E of
          Some e \<Rightarrow> Some (Some e, s)
        | None \<Rightarrow>
            let s1 = log_events [EvLockInode DLM_LOCK_EX] s in
            (case get_next_xattr P (items s1) (i_ino s1) ((sizeof_xattr + name_len) mod 2 ^ 32)
                    name 0 0 of
               None \<Rightarrow> None
             | Some (ret, key, xat) \<Rightarrow>
                 if ret \<noteq> Inl ENOENT \<and> isl ret
                   then Some (Some (projl ret), log_events [EvUnlock DLM_LOCK_EX] s1)
                 else if ret = Inl ENOENT \<and> and flags XATTR_REPLACE \<noteq> 0
                   then Some (Some ENODATA, log_events [EvUnlock DLM_LOCK_EX] s1)
                 else if \<not> isl ret \<and> and flags XATTR_CREATE \<noteq> 0
                   then Some (Some EEXIST, log_events [EvUnlock DLM_LOCK_EX] s1)
                 else if ret = Inl ENOENT \<and> val = None
                   then Some (None, log_events [EvUnlock DLM_LOCK_EX] s1)
                 else
                   let found_parts = (if \<not> isl ret then xattr_nr_parts P xat mod 256 else 0);
                       xid = next_xattr_id s1;
                       s2 = (if val \<noteq> None
                             then s1\<lparr>next_xattr_id := (xid + 1) mod 2 ^ 64\<rparr> else s1);
                       xat' = (case val of None \<Rightarrow> xat | Some v \<Rightarrow> xattr_bytes name v sz)
                   in
                   (case index_hold_retry (index_hold_ret E) 0 of
                      None \<Rightarrow> None
                    | Some HoldBusy \<Rightarrow> None
                    | Some (HoldErr e) \<Rightarrow> Some (Some e, log_events [EvUnlock DLM_LOCK_EX] s2)
                    | Some HoldOk \<Rightarrow>
                        let s3 = log_events [EvHoldTrans] s2 in
                        (case dirty_inode_ret E of
                           Some e \<Rightarrow>
                             Some (Some e,
                                   log_events [EvReleaseTrans, EvUnlock DLM_LOCK_EX] s3)
                         | None \<Rightarrow>
                             (case xattr_set_items P (create_fault E) (items s3) (i_ino s3) key
                                     found_parts (val \<noteq> None) xid xat' bytes of
                                (Some e, its') \<Rightarrow>
                                  Some (Some e,
                                        log_events [EvReleaseTrans, EvUnlock DLM_LOCK_EX]
                                          (s3\<lparr>items := its'\<rparr>))
                              | (None, its') \<Rightarrow>
                                  Some (None,
                                        log_events [EvReleaseTrans, EvUnlock DLM_LOCK_EX]
                                          (s3\<lparr>items := its',
                                               i_version := i_version s3 + 1\<rparr>)))))))"

definition scoutfs_setxattr ::
  "params \<Rightarrow> env \<Rightarrow> fs_state \<Rightarrow> string \<Rightarrow> string option \<Rightarrow> nat \<Rightarrow> int
     \<Rightarrow> (errno option \<times> fs_state) option" where
  "scoutfs_setxattr P E s name val sz flags =
     scoutfs_xattr_set P E s name (if sz = 0 then Some [] else val) sz flags"

definition scoutfs_removexattr ::
  "params \<Rightarrow> env \<Rightarrow> fs_state \<Rightarrow> string \<Rightarrow> (errno option \<times> fs_state) option" where
  "scoutfs_removexattr P E s name = scoutfs_xattr_set P E s name None 0 XATTR_REPLACE"

subsection \<open>scoutfs\_listxattr\<close>

text \<open>
  The loop of \<open>scoutfs_listxattr\<close>.  \<open>out\<close> is what has been written to the caller's
  buffer so far.  The name is copied out of the scratch buffer; the bytes of the
  scratch buffer that no item filled are not initialised in C and are absent here.
  \<open>name_hash\<close> is a 32-bit variable and \<open>id\<close> a 64-bit one.
\<close>

partial_function (option) listxattr_loop ::
  "params \<Rightarrow> store \<Rightarrow> nat \<Rightarrow> nat \<Rightarrow> nat \<Rightarrow> nat \<Rightarrow> nat \<Rightarrow> nat \<Rightarrow> string
     \<Rightarrow> ((errno + nat) \<times> string) option" where
  "listxattr_loop P its ino bytes sz name_hash xid tot out =
     (case get_next_xattr P its ino bytes [] name_hash xid of
        None \<Rightarrow> None
      | Some (Inl e, key, xat) \<Rightarrow> Some (if e = ENOENT then Inr tot else Inl e, out)
      | Some (Inr ret, key, xat) \<Rightarrow>
          let tot' = tot + xat_name_len xat + 1 in
          if sz \<noteq> 0 \<and> tot' > sz then Some (Inl ERANGE, out)
          else listxattr_loop P its ino bytes sz
                 (skx_name_hash key mod 2 ^ 32) ((skx_id key + 1) mod 2 ^ 64) tot'
                 (if sz \<noteq> 0
                  then out @ take (xat_name_len xat) (xat_name xat) @ [CHR 0x00]
                  else out))"

declare listxattr_loop.simps [code]

definition scoutfs_listxattr ::
  "params \<Rightarrow> env \<Rightarrow> fs_state \<Rightarrow> string \<Rightarrow> nat
     \<Rightarrow> (((errno + nat) \<times> string) \<times> fs_state) option" where
  "scoutfs_listxattr P E s buffer sz =
     (let bytes = sizeof_xattr + SCOUTFS_XATTR_MAX_NAME_LEN P in
      if kmalloc_fails E then Some ((Inl ENOMEM, buffer), s)
      else case lock_inode_ret E of
        Some e \<Rightarrow> Some ((Inl e, buffer), s)
      | None \<Rightarrow>
          (case listxattr_loop P (items s) (i_ino s) bytes sz 0 0 0 [] of
             None \<Rightarrow> None
           | Some (ret, out) \<Rightarrow>
               Some ((ret, out @ drop (length out) buffer),
                     log_events [EvLockInode DLM_LOCK_PR, EvUnlock DLM_LOCK_PR] s)))"

subsection \<open>scoutfs\_xattr\_drop\<close>

text \<open>
  The loop of \<open>scoutfs_xattr_drop\<close>.  \<open>n\<close> is the unsigned counter \<open>items\<close>.  The key
  of the scan is the key of the item that was found and deleted last.  Every pass
  that goes on has deleted an item, so the loop ends.
\<close>

function xattr_drop_loop ::
  "(scoutfs_key \<Rightarrow> errno option) \<Rightarrow> store \<Rightarrow> event list \<Rightarrow> scoutfs_key \<Rightarrow> scoutfs_key \<Rightarrow> nat \<Rightarrow> bool
     \<Rightarrow> errno option \<times> store \<times> event list \<times> bool" where
  "xattr_drop_loop hold its tr key lastk n holding =
     (case scoutfs_item_next its key lastk 0 of
        Inl e \<Rightarrow> (if e = ENOENT then None else Some e, its, tr, holding)
      | Inr (fkey, data) \<Rightarrow>
          (case (if \<not> holding then hold fkey else None) of
             Some e \<Rightarrow> (Some e, its, tr, holding)
           | None \<Rightarrow>
               let tr1 = (if \<not> holding then tr @ [EvHoldTrans] else tr) in
               (case scoutfs_item_delete its fkey of
                  (Some e, its') \<Rightarrow> (Some e, its', tr1, True)
                | (None, its') \<Rightarrow>
                    let n' = (n + 4294967295) mod 4294967296;
                        tr2 = tr1 @ [EvItemDelete fkey]
                    in if n' = 0
                       then xattr_drop_loop hold its' (tr2 @ [EvReleaseTrans]) fkey lastk 16 False
                       else xattr_drop_loop hold its' tr2 fkey lastk n' True)))"
  by pat_completeness auto
termination
proof -
  have shorter: "map_of xs k = Some v \<Longrightarrow> length (item_remove k xs) < length xs"
    for xs :: store and k v
  proof (induction xs)
    case Nil
    then show ?case by simp
  next
    case (Cons a xs)
    show ?case
    proof (cases "fst a = k")
      case True
      then show ?thesis by (simp add: item_remove_def less_Suc_eq_le)
    next
      case False
      then have "map_of xs k = Some v" using Cons.prems by (cases a) auto
      then show ?thesis using Cons.IH False by (simp add: item_remove_def)
    qed
  qed
  show ?thesis
  proof (relation "measure (\<lambda>(hold, its, tr, key, lastk, n, holding). length its)", goal_cases)
    case 1
    then show ?case by simp
  next
    case (2 hold its tr key lastk n holding x fkey data tr1 r its')
    then show ?case
      by (auto simp: scoutfs_item_delete_def shorter split: if_splits)
  next
    case (3 hold its tr key lastk n holding x fkey data tr1 r its')
    then show ?case
      by (auto simp: scoutfs_item_delete_def shorter split: if_splits)
  qed
qed

definition scoutfs_xattr_drop ::
  "env \<Rightarrow> fs_state \<Rightarrow> nat \<Rightarrow> errno option \<times> fs_state" where
  "scoutfs_xattr_drop E s ino =
     (case xattr_drop_loop (hold_trans_ret E) (items s) (trace s)
             (init_xattr_key ino 0 0) (init_xattr_key ino U32_MAX U64_MAX) 16 False of
        (ret, its, tr, holding) \<Rightarrow>
          (ret, s\<lparr>items := its, trace := (if holding then tr @ [EvReleaseTrans] else tr)\<rparr>))"

subsection \<open>Well-formed stores\<close>

text \<open>
  The limits that the encoding relies on: the two header fields hold the lengths, the
  first part holds the header and the whole name, and the 8-bit part counters hold
  the number of parts.
\<close>

definition limits_ok :: "params \<Rightarrow> bool" where
  "limits_ok P =
     (SCOUTFS_XATTR_MAX_NAME_LEN P \<le> 255 \<and> SCOUTFS_XATTR_MAX_VAL_LEN P \<le> 65535 \<and>
      sizeof_xattr + SCOUTFS_XATTR_MAX_NAME_LEN P \<le> SCOUTFS_XATTR_MAX_PART_SIZE P \<and>
      SCOUTFS_XATTR_NR_PARTS P (SCOUTFS_XATTR_MAX_NAME_LEN P) (SCOUTFS_XATTR_MAX_VAL_LEN P) \<le> 255)"

text \<open>The name that the first part of an xattr carries.\<close>

definition stored_name :: "string \<Rightarrow> string" where
  "stored_name v = take (xat_name_len v) (xat_name v)"

text \<open>
  A first part is in order when its header is within the limits, the part holds the
  whole name, the key carries the hash of that name, and the identifier is below the
  largest 64-bit value.
\<close>

definition first_part_ok :: "params \<Rightarrow> scoutfs_key \<Rightarrow> string \<Rightarrow> bool" where
  "first_part_ok P k v =
     (xat_name_len v \<le> SCOUTFS_XATTR_MAX_NAME_LEN P \<and>
      xat_val_len v \<le> SCOUTFS_XATTR_MAX_VAL_LEN P \<and>
      sizeof_xattr + xat_name_len v \<le> length v \<and>
      skx_name_hash k = xattr_name_hash P (stored_name v) \<and>
      skx_id k < U64_MAX)"

text \<open>
  The store is well formed for an inode when it is ordered by key without duplicate keys,
  every item of the inode belongs to an xattr whose first part is stored and in order
  and whose header counts that part, and no two xattrs of the inode have the same name.
\<close>

definition wf_store :: "params \<Rightarrow> nat \<Rightarrow> store \<Rightarrow> bool" where
  "wf_store P ino its =
     (sorted (map fst its) \<and> distinct (map fst its) \<and>
      (\<forall>kv \<in> set its. skx_ino (fst kv) = ino \<longrightarrow>
         (case map_of its (set_part (fst kv) 0) of
            None \<Rightarrow> False
          | Some v0 \<Rightarrow> first_part_ok P (fst kv) v0 \<and> skx_part (fst kv) < xattr_nr_parts P v0)) \<and>
      (\<forall>kv \<in> set its. \<forall>kv' \<in> set its.
         skx_ino (fst kv) = ino \<and> skx_ino (fst kv') = ino \<and>
         skx_part (fst kv) = 0 \<and> skx_part (fst kv') = 0 \<and>
         stored_name (snd kv) = stored_name (snd kv') \<longrightarrow> fst kv = fst kv'))"

text \<open>The first \<open>m\<close> parts of the xattr \<open>name = val\<close> are stored under the identifier
  \<open>xid\<close>: each of them holds its chunk of the encoded bytes.  The xattr is stored when
  all its parts are.\<close>

definition parts_stored :: "params \<Rightarrow> store \<Rightarrow> nat \<Rightarrow> nat \<Rightarrow> string \<Rightarrow> string \<Rightarrow> nat \<Rightarrow> bool" where
  "parts_stored P its ino xid name val m =
     (\<forall>p < m.
        map_of its (ino, xattr_name_hash P name, xid, p) =
          Some (take (SCOUTFS_XATTR_MAX_PART_SIZE P)
                 (drop (p * SCOUTFS_XATTR_MAX_PART_SIZE P) (xattr_bytes name val (length val)))))"

definition xattr_stored :: "params \<Rightarrow> store \<Rightarrow> nat \<Rightarrow> nat \<Rightarrow> string \<Rightarrow> string \<Rightarrow> bool" where
  "xattr_stored P its ino xid name val =
     parts_stored P its ino xid name val
       (SCOUTFS_XATTR_NR_PARTS P (length name) (length val))"

text \<open>No xattr of the inode has the name.\<close>

definition name_absent :: "nat \<Rightarrow> store \<Rightarrow> string \<Rightarrow> bool" where
  "name_absent ino its name =
     (\<forall>kv \<in> set its. skx_ino (fst kv) = ino \<and> skx_part (fst kv) = 0 \<longrightarrow>
        stored_name (snd kv) \<noteq> name)"

subsection \<open>Transactions in the trace, and an empty key range\<close>

text \<open>
  \<open>batch_step\<close> reads the trace event by event and keeps whether a transaction is held
  and how many items were deleted in it; it fails on a second hold, on a release
  without a hold, on a deletion outside a transaction and on a deletion beyond the
  limit.  A trace is in order when it is read without failure and ends with no
  transaction held.
\<close>

fun batch_step :: "nat \<Rightarrow> event \<Rightarrow> (bool \<times> nat) option \<Rightarrow> (bool \<times> nat) option" where
  "batch_step lim ev None = None"
| "batch_step lim EvHoldTrans (Some (h, c)) = (if h then None else Some (True, 0))"
| "batch_step lim EvReleaseTrans (Some (h, c)) = (if h then Some (False, 0) else None)"
| "batch_step lim (EvItemDelete k) (Some (h, c)) = (if h \<and> c < lim then Some (h, Suc c) else None)"
| "batch_step lim (EvLockInode m) (Some (h, c)) = Some (h, c)"
| "batch_step lim (EvUnlock m) (Some (h, c)) = Some (h, c)"

definition batches_ok :: "nat \<Rightarrow> event list \<Rightarrow> bool" where
  "batches_ok lim evs = (fold (batch_step lim) evs (Some (False, 0)) = Some (False, 0))"

text \<open>No item lies in the key range of the inode's xattrs.\<close>

definition range_empty :: "nat \<Rightarrow> store \<Rightarrow> bool" where
  "range_empty ino its =
     (\<forall>kv \<in> set its. \<not> (init_xattr_key ino 0 0 \<le> fst kv \<and>
                           fst kv \<le> init_xattr_key ino U32_MAX U64_MAX))"

subsection \<open>The stored names\<close>

text \<open>
  The names that the first parts of the inode carry, in key order: from a cursor on, and
  all of them.  \<open>names_buffer\<close> is what the enumeration writes for a list of names: each
  name followed by a NUL byte.
\<close>

definition rest_names :: "nat \<Rightarrow> store \<Rightarrow> scoutfs_key \<Rightarrow> string list" where
  "rest_names ino its cur =
     map (\<lambda>kv. stored_name (snd kv))
       (filter (\<lambda>kv. cur \<le> fst kv \<and> skx_ino (fst kv) = ino \<and> skx_part (fst kv) = 0) its)"

definition stored_names :: "nat \<Rightarrow> store \<Rightarrow> string list" where
  "stored_names ino its =
     map (\<lambda>kv. stored_name (snd kv))
       (filter (\<lambda>kv. skx_ino (fst kv) = ino \<and> skx_part (fst kv) = 0) its)"

definition names_buffer :: "string list \<Rightarrow> string" where
  "names_buffer ns = concat (map (\<lambda>n. n @ [CHR 0x00]) ns)"

subsection \<open>Concrete parameters for the examples\<close>

text \<open>
  Small limits keep the examples short: names of at most 12 bytes, values of at most
  40 bytes, parts of 16 bytes.  The hash of the examples is the length of the name, so
  that names of equal length collide.
\<close>

definition P_ex :: params where
  "P_ex = \<lparr>SCOUTFS_XATTR_MAX_NAME_LEN = 12, SCOUTFS_XATTR_MAX_VAL_LEN = 40,
            SCOUTFS_XATTR_MAX_PART_SIZE = 16, crc32c = (\<lambda>seed name. length name)\<rparr>"

definition E_ok :: env where
  "E_ok = \<lparr>kmalloc_fails = False, lock_inode_ret = None,
            index_hold_ret = (\<lambda>n. if n = 0 then HoldBusy else HoldOk),
            dirty_inode_ret = None, create_fault = (\<lambda>k. None),
            hold_trans_ret = (\<lambda>k. None)\<rparr>"

definition s_empty :: fs_state where
  "s_empty = \<lparr>i_ino = 7, next_xattr_id = 0, i_version = 0, items = [], trace = []\<rparr>"

text \<open>A store with two xattrs whose names collide: \<open>user.b = bee\<close> in one part and
  \<open>user.a\<close> with a value of 36 bytes in three parts.\<close>

definition s_ex :: fs_state where
  "s_ex = \<lparr>i_ino = 7, next_xattr_id = 3, i_version = 3,
      items =
        [((7, 6, 1, 0), [CHR 0x06, CHR 0x03, CHR 0x00] @ ''user.b'' @ ''bee''),
         ((7, 6, 2, 0), [CHR 0x06, CHR 0x24, CHR 0x00] @ ''user.a'' @ ''0123456''),
         ((7, 6, 2, 1), ''789abcdefghijklm''),
         ((7, 6, 2, 2), ''nopqrstuvwxyz'')],
      trace = []\<rparr>"

text \<open>The same store after the loss of the second part of \<open>user.a\<close>.\<close>

definition s_lost :: fs_state where
  "s_lost = \<lparr>i_ino = 7, next_xattr_id = 3, i_version = 3,
      items =
        [((7, 6, 1, 0), [CHR 0x06, CHR 0x03, CHR 0x00] @ ''user.b'' @ ''bee''),
         ((7, 6, 2, 0), [CHR 0x06, CHR 0x24, CHR 0x00] @ ''user.a'' @ ''0123456''),
         ((7, 6, 2, 2), ''nopqrstuvwxyz'')],
      trace = []\<rparr>"

text \<open>The store of the examples after the loss of the first part of \<open>user.a\<close>: the two
  continuation parts are left behind.\<close>

definition s_headless :: fs_state where
  "s_headless = \<lparr>i_ino = 7, next_xattr_id = 3, i_version = 3,
      items =
        [((7, 6, 1, 0), [CHR 0x06, CHR 0x03, CHR 0x00] @ ''user.b'' @ ''bee''),
         ((7, 6, 2, 1), ''789abcdefghijklm''),
         ((7, 6, 2, 2), ''nopqrstuvwxyz'')],
      trace = []\<rparr>"


text \<open>An environment in which the item store refuses to create the second part of the
  xattr with the identifier 3.\<close>

definition E_fail :: env where
  "E_fail = E_ok\<lparr>create_fault := (\<lambda>k. if k = (7, 6, 3, 1) then Some ENOSPC else None)\<rparr>"


section \<open>Properties\<close>

subsection \<open>Removal is the set operation without a value\<close>

text \<open>
  Claim C10.  For every name, \<open>scoutfs_removexattr\<close> is the call of
  \<open>scoutfs_xattr_set\<close> with a null value, size 0 and exactly the flag
  \<open>XATTR_REPLACE\<close>: from every state and in every environment both give the same
  return code and the same final state, or both do not return.
\<close>

theorem removexattr_is_set_without_value:
  "scoutfs_removexattr P E s name = scoutfs_xattr_set P E s name None 0 XATTR_REPLACE"
  by (simp add: scoutfs_removexattr_def)

subsection \<open>The length checks come first\<close>

text \<open>
  Claim C8 as stated fails for \<open>scoutfs_getxattr\<close>: a name that is too long is
  answered with \<open>-ENODATA\<close>, not with \<open>-ERANGE\<close>.
\<close>

theorem getxattr_long_name_counterexample:
  "length ''user.0123456789'' > SCOUTFS_XATTR_MAX_NAME_LEN P_ex \<and>
   scoutfs_getxattr P_ex E_ok s_empty ''user.0123456789'' [] 0
     = Some ((Inl ENODATA, []), s_empty) \<and>
   scoutfs_getxattr P_ex E_ok s_empty ''user.0123456789'' [] 0
     \<noteq> Some ((Inl ERANGE, []), s_empty)"
  by (simp add: scoutfs_getxattr_def P_ex_def unknown_prefix_def XATTR_USER_PREFIX_def)

text \<open>
  Claim C8, amended.  \<open>scoutfs_xattr_set\<close>, \<open>scoutfs_setxattr\<close> and
  \<open>scoutfs_removexattr\<close> answer a name longer than the maximum with \<open>-ERANGE\<close>, and
  the two set functions answer a supplied value longer than the maximum (the name
  being within its limit) with \<open>-E2BIG\<close>; \<open>scoutfs_getxattr\<close> answers a name of a known
  namespace that is too long with \<open>-ENODATA\<close>.  In each case the state is returned as it
  was, whatever the environment and the item store are: no lock event is recorded and
  no item is read.
\<close>

theorem limits_checked_before_locking:
  assumes "length long_name > SCOUTFS_XATTR_MAX_NAME_LEN P"
      and "length name \<le> SCOUTFS_XATTR_MAX_NAME_LEN P"
      and "sz > SCOUTFS_XATTR_MAX_VAL_LEN P"
      and "\<not> unknown_prefix known_long_name"
      and "length known_long_name > SCOUTFS_XATTR_MAX_NAME_LEN P"
  shows "scoutfs_xattr_set P E s long_name val sz' flags = Some (Some ERANGE, s) \<and>
         scoutfs_setxattr P E s long_name val sz' flags = Some (Some ERANGE, s) \<and>
         scoutfs_removexattr P E s long_name = Some (Some ERANGE, s) \<and>
         scoutfs_xattr_set P E s name (Some v) sz flags = Some (Some E2BIG, s) \<and>
         scoutfs_setxattr P E s name (Some v) sz flags = Some (Some E2BIG, s) \<and>
         scoutfs_getxattr P E s known_long_name buffer bsz = Some ((Inl ENODATA, buffer), s)"
  using assms
  by (simp add: scoutfs_xattr_set_def scoutfs_setxattr_def scoutfs_removexattr_def
      scoutfs_getxattr_def)

theorem limits_checked_before_locking_witness:
  "scoutfs_xattr_set P_ex E_ok s_empty ''user.0123456789'' (Some ''v'') 1 0
     = Some (Some ERANGE, s_empty) \<and>
   scoutfs_removexattr P_ex E_ok s_empty ''user.0123456789'' = Some (Some ERANGE, s_empty) \<and>
   scoutfs_setxattr P_ex E_ok s_empty ''user.a'' (Some (replicate 41 CHR ''x'')) 41 0
     = Some (Some E2BIG, s_empty) \<and>
   scoutfs_getxattr P_ex E_ok s_empty ''user.0123456789'' [] 0
     = Some ((Inl ENODATA, []), s_empty)"
  using limits_checked_before_locking [of P_ex "''user.0123456789''" "''user.a''" 41
      "''user.0123456789''" E_ok s_empty "Some ''v''" 1 0 "replicate 41 CHR ''x''" "[]" 0]
  by (simp add: P_ex_def unknown_prefix_def XATTR_USER_PREFIX_def)

section \<open>The item store and the scan\<close>

subsection \<open>The forward scan of the ordered store\<close>

lemma item_next_Inl: "scoutfs_item_next its key lastk len = Inl e \<Longrightarrow> e = ENOENT"
  by (auto simp: scoutfs_item_next_def split: option.splits if_splits)

lemma find_sorted_least:
  "sorted (map fst its) \<Longrightarrow> find (\<lambda>kv. key \<le> fst kv) its = Some kv
     \<Longrightarrow> kv \<in> set its \<and> key \<le> fst kv \<and> (\<forall>kv' \<in> set its. key \<le> fst kv' \<longrightarrow> fst kv \<le> fst kv')"
proof (induction its)
  case Nil
  then show ?case by simp
next
  case (Cons a its)
  then show ?case by (auto split: if_splits)
qed

lemma item_next_found:
  assumes "sorted (map fst its)" and "scoutfs_item_next its key lastk len = Inr (k, d)"
  shows "\<exists>v. (k, v) \<in> set its \<and> d = take len v \<and> key \<le> k \<and> k \<le> lastk \<and>
             (\<forall>kv \<in> set its. key \<le> fst kv \<longrightarrow> k \<le> fst kv)"
proof -
  from assms(2) obtain kv where f: "find (\<lambda>kv. key \<le> fst kv) its = Some kv"
    and k: "fst kv = k" "fst kv \<le> lastk" "d = take len (snd kv)"
    by (auto simp: scoutfs_item_next_def split: option.splits if_splits)
  from find_sorted_least[OF assms(1) f] k show ?thesis
    by (intro exI[of _ "snd kv"]) auto
qed

lemma item_next_none:
  assumes "sorted (map fst its)" and "scoutfs_item_next its key lastk len = Inl e"
  shows "\<forall>kv \<in> set its. \<not> (key \<le> fst kv \<and> fst kv \<le> lastk)"
proof (cases "find (\<lambda>kv. key \<le> fst kv) its")
  case None
  then show ?thesis unfolding find_None_iff by blast
next
  case (Some kv)
  with assms(2) have "\<not> fst kv \<le> lastk"
    by (auto simp: scoutfs_item_next_def split: if_splits)
  with find_sorted_least[OF assms(1) Some] show ?thesis by (meson order_trans) 
qed

lemma item_next_least:
  assumes "sorted (map fst its)" "distinct (map fst its)" "(k, v) \<in> set its" "key \<le> k" "k \<le> lastk"
    and "\<forall>kv \<in> set its. key \<le> fst kv \<longrightarrow> k \<le> fst kv"
  shows "scoutfs_item_next its key lastk len = Inr (k, take len v)"
proof -
  from assms(3,4) obtain kv where f: "find (\<lambda>kv. key \<le> fst kv) its = Some kv"
    using find_None_iff[of "\<lambda>kv. key \<le> fst kv" its] by fastforce
  from find_sorted_least[OF assms(1) f] assms(3,4,6) have "fst kv = k"
    by (metis fst_conv order_antisym)
  moreover have "snd kv = v"
    using assms(2,3) \<open>fst kv = k\<close> find_sorted_least[OF assms(1) f]
    by (metis eq_key_imp_eq_value prod.collapse)
  ultimately show ?thesis using f assms(5) by (simp add: scoutfs_item_next_def)
qed

lemma item_next_exact:
  assumes "sorted (map fst its)" "distinct (map fst its)" "map_of its key = Some v" "key \<le> lastk"
  shows "scoutfs_item_next its key lastk len = Inr (key, take len v)"
  using assms by (intro item_next_least) (auto dest: map_of_SomeD)


lemma wf_storeD:
  assumes "wf_store P ino its"
  shows "sorted (map fst its)" "distinct (map fst its)"
  using assms by (auto simp: wf_store_def)

lemma wf_store_part0:
  assumes "wf_store P ino its" "((ino, h, j, p), v) \<in> set its"
  shows "\<exists>v0. ((ino, h, j, 0), v0) \<in> set its \<and> first_part_ok P (ino, h, j, 0) v0 \<and>
              p < xattr_nr_parts P v0"
proof -
  from assms(1) have "\<forall>kv \<in> set its. skx_ino (fst kv) = ino \<longrightarrow>
         (case map_of its (set_part (fst kv) 0) of
            None \<Rightarrow> False
          | Some v0 \<Rightarrow> first_part_ok P (fst kv) v0 \<and> skx_part (fst kv) < xattr_nr_parts P v0)"
    unfolding wf_store_def by blast
  from bspec[OF this assms(2)]
  have "case map_of its (ino, h, j, 0) of None \<Rightarrow> False
     | Some v0 \<Rightarrow> first_part_ok P (ino, h, j, p) v0 \<and> p < xattr_nr_parts P v0"
    by (simp split: option.splits)
  then show ?thesis
    by (auto split: option.splits dest: map_of_SomeD simp: first_part_ok_def)
qed

lemma wf_store_unique:
  assumes "wf_store P ino its" "((ino, h, j, 0), v) \<in> set its" "((ino, h', j', 0), v') \<in> set its"
    "stored_name v = stored_name v'"
  shows "h = h' \<and> j = j' \<and> v = v'"
proof -
  from assms(1) have "\<forall>kv \<in> set its. \<forall>kv' \<in> set its.
         skx_ino (fst kv) = ino \<and> skx_ino (fst kv') = ino \<and>
         skx_part (fst kv) = 0 \<and> skx_part (fst kv') = 0 \<and>
         stored_name (snd kv) = stored_name (snd kv') \<longrightarrow> fst kv = fst kv'"
    unfolding wf_store_def by blast
  from bspec[OF bspec[OF this assms(2)] assms(3)] assms(4)
  have "(ino, h, j, 0) = (ino, h', j', 0::nat)"
    by simp
  then show ?thesis using assms(1-3) by (auto simp: wf_store_def dest: eq_key_imp_eq_value)
qed

lemma wf_next_part0:
  assumes wf: "wf_store P ino its"
    and nx: "scoutfs_item_next its (ino, h0, c, 0) (init_xattr_key ino U32_MAX U64_MAX) len = Inr (k, d)"
  shows "\<exists>h j v. k = (ino, h, j, 0) \<and> (k, v) \<in> set its \<and> d = take len v \<and>
           first_part_ok P k v \<and> (h0, c) \<le> (h, j) \<and>
           (\<forall>kv \<in> set its. (ino, h0, c, 0) \<le> fst kv \<longrightarrow> k \<le> fst kv)"
proof -
  from item_next_found[OF wf_storeD(1)[OF wf] nx] obtain v where
    v: "(k, v) \<in> set its" "d = take len v" "(ino, h0, c, 0) \<le> k"
       "k \<le> init_xattr_key ino U32_MAX U64_MAX"
    and least: "\<forall>kv \<in> set its. (ino, h0, c, 0) \<le> fst kv \<longrightarrow> k \<le> fst kv"
    by blast
  obtain i h j p where k: "k = (i, h, j, p)" by (cases k) auto
  from v(3,4) have i: "i = ino" by (auto simp: k init_xattr_key_def)
  from v(3) have hj: "(h0, c) \<le> (h, j)" by (auto simp: k i)
  from wf_store_part0[OF wf] v(1) obtain v0 where
    v0: "((ino, h, j, 0), v0) \<in> set its" "first_part_ok P (ino, h, j, 0) v0"
    unfolding k i by blast
  have "(ino, h0, c, 0) \<le> (ino, h, j, 0::nat)" using hj by auto
  with least v0(1) have "k \<le> (ino, h, j, 0)" by fastforce
  then have p: "p = 0" by (auto simp: k i)
  have "v0 = v" using v(1) v0(1) wf_storeD(2)[OF wf] unfolding k i p
    by (auto dest: eq_key_imp_eq_value)
  then show ?thesis using v v0 hj least by (auto simp: k i p)
qed


lemma hdr_take:
  assumes "sizeof_xattr \<le> n"
  shows "xat_name_len (take n v) = xat_name_len v" "xat_val_len (take n v) = xat_val_len v"
  using assms by (simp_all add: xat_name_len_def xat_val_len_def sizeof_xattr_def)

lemma first_part_not_bad:
  assumes "first_part_ok P k v" "sizeof_xattr + nlen \<le> bytes"
  shows "\<not> bad_first_part P nlen (take bytes v)"
proof -
  have "sizeof_xattr \<le> bytes" using assms(2) by simp
  from hdr_take[OF this] assms show ?thesis
    by (auto simp: bad_first_part_def first_part_ok_def)
qed

lemma names_equal_iff:
  assumes "first_part_ok P k v" "sizeof_xattr + length name \<le> bytes"
  shows "xattr_names_equal name (length name) (xat_name (take bytes v))
           (xat_name_len (take bytes v)) = (stored_name v = name)"
proof -
  have b: "sizeof_xattr \<le> bytes" using assms(2) by simp
  have len: "length (stored_name v) = xat_name_len v"
    using assms(1) by (auto simp: stored_name_def xat_name_def first_part_ok_def)
  show ?thesis
  proof (cases "xat_name_len v = length name")
    case True
    have "take (length name) (drop sizeof_xattr (take bytes v)) = take (length name) (drop sizeof_xattr v)"
      using assms(2) by (simp add: drop_take min_def)
    then show ?thesis using True
      by (auto simp: xattr_names_equal_def hdr_take[OF b] stored_name_def xat_name_def)
  next
    case False
    then show ?thesis using len
      by (auto simp: xattr_names_equal_def hdr_take[OF b])
  qed
qed

lemma filter_cursor_less:
  assumes "(k, v) \<in> set its" "c \<le> k" "k < c'" "c \<le> c'"
  shows "length (filter (\<lambda>kv. c' \<le> fst kv) its) < length (filter (\<lambda>kv. c \<le> fst kv) (its :: store))"
proof -
  have "filter (\<lambda>kv. c' \<le> fst kv) its = filter (\<lambda>kv. c' \<le> fst kv) (filter (\<lambda>kv. c \<le> fst kv) its)"
    using assms(4) by (auto intro!: filter_cong simp: order_trans)
  moreover have "(k, v) \<in> set (filter (\<lambda>kv. c \<le> fst kv) its)" using assms by simp
  moreover have "\<not> c' \<le> fst (k, v)" using assms(3) by simp
  ultimately show ?thesis by (metis length_filter_less)
qed

lemma scan_nomatch:
  assumes wf: "wf_store P ino its" and ne: "name \<noteq> []"
    and bytes: "sizeof_xattr + length name \<le> bytes"
    and absent: "name_absent ino its name"
  shows "\<exists>k x. get_next_loop P its name bytes H (init_xattr_key ino U32_MAX U64_MAX)
                 (ino, H, c, pp) [] lp 0 = Some (Inl ENOENT, k, x)"
proof (induction "length (filter (\<lambda>kv. (ino, H, c, 0) \<le> fst kv) its)" arbitrary: c pp rule: less_induct)
  case less
  let ?lastk = "init_xattr_key ino U32_MAX U64_MAX"
  show ?case
  proof (cases "scoutfs_item_next its (ino, H, c, 0) ?lastk bytes")
    case (Inl e)
    then have "e = ENOENT" by (rule item_next_Inl)
    with Inl show ?thesis
      by (subst get_next_loop.simps) simp
  next
    case (Inr r)
    obtain k d where r: "r = (k, d)" by (cases r) auto
    from wf_next_part0[OF wf Inr[unfolded r]] obtain h j v where
      k: "k = (ino, h, j, 0)" and v: "(k, v) \<in> set its" "d = take bytes v" "first_part_ok P k v"
      and hj: "(H, c) \<le> (h, j)"
      by blast
    have nb: "\<not> bad_first_part P (length name) d"
      using first_part_not_bad[OF v(3) bytes] v(2) by simp
    show ?thesis
    proof (cases "h = H")
      case False
      then show ?thesis using Inr r k nb ne
        by (subst get_next_loop.simps) simp
    next
      case True
      have "stored_name v \<noteq> name" using absent v(1) k by (auto simp: name_absent_def)
      then have neq: "\<not> xattr_names_equal name (length name) (xat_name d) (xat_name_len d)"
        using names_equal_iff[OF v(3) bytes] v(2) by simp
      have j: "j < U64_MAX" using v(3) k by (simp add: first_part_ok_def)
      then have j1: "(j + 1) mod 2 ^ 64 = j + 1" by (simp add: U64_MAX_def)
      have step: "get_next_loop P its name bytes H ?lastk (ino, H, c, pp) [] lp 0
                  = get_next_loop P its name bytes H ?lastk (ino, H, j + 1, 0) [] lp 0"
        using Inr r k nb ne True neq j1
        by (subst get_next_loop.simps) simp
      have "c \<le> j" using hj True by auto
      then have "length (filter (\<lambda>kv. (ino, H, j + 1, 0) \<le> fst kv) its)
                 < length (filter (\<lambda>kv. (ino, H, c, 0) \<le> fst kv) its)"
        using v(1) k True by (intro filter_cursor_less[of k v]) auto
      from less[OF this] step show ?thesis by simp
    qed
  qed
qed


lemma first_part_in_range:
  assumes "first_part_ok P (ino, h, j, p) v"
  shows "(ino, h, j, q) \<le> init_xattr_key ino U32_MAX U64_MAX"
proof -
  have "h < 2 ^ 32" using assms by (simp add: first_part_ok_def xattr_name_hash_def)
  then have "h \<le> U32_MAX" by (simp add: U32_MAX_def)
  moreover have "j < U64_MAX" using assms by (simp add: first_part_ok_def)
  ultimately show ?thesis by (auto simp: init_xattr_key_def)
qed

lemma wf_store_first_part:
  assumes "wf_store P ino its" "((ino, h, j, 0), v) \<in> set its"
  shows "first_part_ok P (ino, h, j, 0) v"
proof -
  from wf_store_part0[OF assms] obtain v0 where
    "((ino, h, j, 0), v0) \<in> set its" "first_part_ok P (ino, h, j, 0) v0" by blast
  moreover have "v0 = v" using calculation(1) assms(2) wf_storeD(2)[OF assms(1)]
    by (auto dest: eq_key_imp_eq_value)
  ultimately show ?thesis by simp
qed

lemma scan_match:
  assumes wf: "wf_store P ino its" and ne: "name \<noteq> []"
    and bytes: "sizeof_xattr + length name \<le> bytes"
    and target: "((ino, H, t, 0), v0) \<in> set its" "stored_name v0 = name"
  shows "c \<le> t \<Longrightarrow>
         get_next_loop P its name bytes H (init_xattr_key ino U32_MAX U64_MAX)
           (ino, H, c, pp) [] lp 0 =
         (let d = take bytes v0; lp' = (xattr_nr_parts P d + 255) mod 256 in
            if length d = bytes \<or> 0 = lp' then Some (Inr (length d), (ino, H, t, 0), d)
            else get_next_loop P its name bytes H (init_xattr_key ino U32_MAX U64_MAX)
                   (ino, H, t, 0) d lp' 1)"
proof (induction "t - c" arbitrary: c pp rule: less_induct)
  case less
  let ?lastk = "init_xattr_key ino U32_MAX U64_MAX"
  have fp0: "first_part_ok P (ino, H, t, 0) v0" by (rule wf_store_first_part[OF wf target(1)])
  have inr: "(ino, H, t, 0) \<le> ?lastk" by (rule first_part_in_range[OF fp0])
  have "\<exists>r. scoutfs_item_next its (ino, H, c, 0) ?lastk bytes = Inr r"
  proof (cases "scoutfs_item_next its (ino, H, c, 0) ?lastk bytes")
    case (Inl e)
    from item_next_none[OF wf_storeD(1)[OF wf] Inl] target(1) inr less.prems
    show ?thesis by fastforce
  next
    case (Inr r)
    then show ?thesis by blast
  qed
  then obtain k d where nx: "scoutfs_item_next its (ino, H, c, 0) ?lastk bytes = Inr (k, d)"
    by (metis surj_pair)
  from wf_next_part0[OF wf nx] obtain h j v where
    k: "k = (ino, h, j, 0)" and v: "(k, v) \<in> set its" "d = take bytes v" "first_part_ok P k v"
    and hj: "(H, c) \<le> (h, j)"
    and least: "\<forall>kv \<in> set its. (ino, H, c, 0) \<le> fst kv \<longrightarrow> k \<le> fst kv"
    by blast
  have "(ino, H, c, 0) \<le> (ino, H, t, 0::nat)" using less.prems by auto
  with least target(1) have "k \<le> (ino, H, t, 0)" by fastforce
  with hj have h: "h = H" and cj: "c \<le> j" and jt: "j \<le> t" by (auto simp: k)
  have nb: "\<not> bad_first_part P (length name) d"
    using first_part_not_bad[OF v(3) bytes] v(2) by simp
  show ?case
  proof (cases "j = t")
    case True
    then have vv: "v = v0" using v(1) target(1) wf_storeD(2)[OF wf] k h
      by (auto dest: eq_key_imp_eq_value)
    have eq: "xattr_names_equal name (length name) (xat_name d) (xat_name_len d)"
      using names_equal_iff[OF v(3) bytes] v(2) vv target(2) by simp
    show ?thesis
      using nx k h nb ne eq True v(2) vv
      by (subst get_next_loop.simps) (simp add: Let_def)
  next
    case False
    have "stored_name v \<noteq> name"
      using wf_store_unique[OF wf v(1)[unfolded k h] target(1)] False target(2) by auto
    then have neq: "\<not> xattr_names_equal name (length name) (xat_name d) (xat_name_len d)"
      using names_equal_iff[OF v(3) bytes] v(2) by simp
    have "j < U64_MAX" using v(3) k by (simp add: first_part_ok_def)
    then have j1: "(j + 1) mod 2 ^ 64 = j + 1" by (simp add: U64_MAX_def)
    have step: "get_next_loop P its name bytes H ?lastk (ino, H, c, pp) [] lp 0
                = get_next_loop P its name bytes H ?lastk (ino, H, j + 1, 0) [] lp 0"
      using nx k h nb ne neq j1
      by (subst get_next_loop.simps) simp
    have "t - (j + 1) < t - c" "j + 1 \<le> t" using cj jt False by auto
    from less.hyps[OF this] step show ?thesis by simp
  qed
qed


lemma get_next_xattr_absent:
  assumes "wf_store P ino its" "name \<noteq> []" "sizeof_xattr + length name \<le> bytes"
    "name_absent ino its name"
  shows "\<exists>k x. get_next_xattr P its ino bytes name nh xid = Some (Inl ENOENT, k, x)"
  using scan_nomatch[OF assms, of "xattr_name_hash P name" xid 0 0] assms(2,3)
  by (simp add: get_next_xattr_def init_xattr_key_def Let_def)

lemma get_next_xattr_header:
  assumes wf: "wf_store P ino its" and ne: "name \<noteq> []"
    and target: "((ino, h, t, 0), v0) \<in> set its" "stored_name v0 = name"
  shows "get_next_xattr P its ino (sizeof_xattr + length name) name nh 0 =
           Some (Inr (sizeof_xattr + length name), (ino, h, t, 0),
                 take (sizeof_xattr + length name) v0)"
proof -
  have fp: "first_part_ok P (ino, h, t, 0) v0" by (rule wf_store_first_part[OF wf target(1)])
  then have h: "h = xattr_name_hash P name" using target(2) by (simp add: first_part_ok_def)
  have len: "sizeof_xattr + length name \<le> length v0"
    using fp target(2) by (auto simp: first_part_ok_def stored_name_def xat_name_def)
  from scan_match[OF wf ne _ target[unfolded h], of "sizeof_xattr + length name" 0 0 0] len ne
  show ?thesis
    by (simp add: get_next_xattr_def init_xattr_key_def h Let_def min_def)
qed

lemma known_prefix_nonempty: "\<not> unknown_prefix name \<Longrightarrow> name \<noteq> []"
  by (auto simp: unknown_prefix_def XATTR_USER_PREFIX_def XATTR_TRUSTED_PREFIX_def
      XATTR_SYSTEM_PREFIX_def XATTR_SECURITY_PREFIX_def)


lemma xattr_bytes_length:
  "length val = sz \<Longrightarrow> length (xattr_bytes name val sz) = sizeof_xattr + length name + sz"
  by (simp add: xattr_bytes_def sizeof_xattr_def)

lemma xattr_bytes_header:
  assumes "length name \<le> 255" "sz \<le> 65535"
  shows "xat_name_len (xattr_bytes name val sz) = length name"
    and "xat_val_len (xattr_bytes name val sz) = sz"
    and "stored_name (xattr_bytes name val sz) = name"
proof -
  show n: "xat_name_len (xattr_bytes name val sz) = length name"
    using assms(1) by (simp add: xat_name_len_def xattr_bytes_def)
  have "sz div 256 < 256" using assms(2) by simp
  then show "xat_val_len (xattr_bytes name val sz) = sz"
    by (simp add: xat_val_len_def xattr_bytes_def)
  show "stored_name (xattr_bytes name val sz) = name"
    unfolding stored_name_def n by (simp add: xattr_bytes_def xat_name_def sizeof_xattr_def)
qed

lemma nr_parts_less_iff:
  assumes "0 < SCOUTFS_XATTR_MAX_PART_SIZE P"
  shows "p < SCOUTFS_XATTR_NR_PARTS P nl vl
         \<longleftrightarrow> p * SCOUTFS_XATTR_MAX_PART_SIZE P < sizeof_xattr + nl + vl"
proof -
  let ?ps = "SCOUTFS_XATTR_MAX_PART_SIZE P"
  have "p < (sizeof_xattr + nl + vl + ?ps - 1) div ?ps
        \<longleftrightarrow> Suc p * ?ps \<le> sizeof_xattr + nl + vl + ?ps - 1"
    using less_eq_div_iff_mult_less_eq[OF assms, of "Suc p"] by (simp add: Suc_le_eq)
  also have "\<dots> \<longleftrightarrow> p * ?ps < sizeof_xattr + nl + vl" using assms by auto
  finally show ?thesis by (simp add: SCOUTFS_XATTR_NR_PARTS_def)
qed

lemma nr_parts_bound:
  assumes "limits_ok P" "nl \<le> SCOUTFS_XATTR_MAX_NAME_LEN P" "vl \<le> SCOUTFS_XATTR_MAX_VAL_LEN P"
  shows "0 < SCOUTFS_XATTR_NR_PARTS P nl vl" "SCOUTFS_XATTR_NR_PARTS P nl vl \<le> 255"
proof -
  have ps: "0 < SCOUTFS_XATTR_MAX_PART_SIZE P"
    using assms(1) by (simp add: limits_ok_def sizeof_xattr_def)
  show "0 < SCOUTFS_XATTR_NR_PARTS P nl vl"
    using nr_parts_less_iff[OF ps, of 0 nl vl] by (simp add: sizeof_xattr_def)
  have "SCOUTFS_XATTR_NR_PARTS P nl vl
        \<le> SCOUTFS_XATTR_NR_PARTS P (SCOUTFS_XATTR_MAX_NAME_LEN P) (SCOUTFS_XATTR_MAX_VAL_LEN P)"
    unfolding SCOUTFS_XATTR_NR_PARTS_def using assms(2,3) by (intro div_le_mono) simp
  then show "SCOUTFS_XATTR_NR_PARTS P nl vl \<le> 255"
    using assms(1) by (simp add: limits_ok_def)
qed

lemma take_chunk:
  assumes "a < bytes"
  shows "take a enc @ take (bytes - a) (take ps (drop a enc)) = take (min bytes (a + ps)) enc"
proof -
  have "take (bytes - a) (take ps (drop a enc)) = take (min (bytes - a) ps) (drop a enc)"
    by (simp add: min.commute)
  moreover have "a + min (bytes - a) ps = min bytes (a + ps)" using assms by auto
  ultimately show ?thesis by (metis take_add)
qed

lemma get_next_loop_cont:
  assumes "0 < part"
    and "scoutfs_item_next its (set_part key part) lastk (bytes - length xat) = Inr (fkey, data)"
    and "skx_part fkey = part"
  shows "get_next_loop P its name bytes nh lastk key xat lp part =
         (if length (xat @ data) = bytes \<or> part = lp
          then Some (Inr (length (xat @ data)), fkey, xat @ data)
          else get_next_loop P its name bytes nh lastk fkey (xat @ data) lp ((part + 1) mod 256))"
proof -
  have "part \<noteq> 0" using assms(1) by simp
  then show ?thesis
    by (subst get_next_loop.simps) (simp add: assms(2,3) Let_def)
qed

subsection \<open>Reading the parts of the xattr that was found\<close>

lemma get_next_loop_key:
  "get_next_loop P its name bytes nh lastk (i, h, d, pp) xat lp part
   = get_next_loop P its name bytes nh lastk (i, h, d, pp') xat lp part"
  by (simp add: get_next_loop.simps[of P its name bytes nh lastk "(i, h, d, pp)" xat lp part]
      get_next_loop.simps[of P its name bytes nh lastk "(i, h, d, pp')" xat lp part]
      cong: sum.case_cong)

lemma read_missing:
  assumes wf: "wf_store P ino its" and p: "0 < p"
    and miss: "map_of its (ino, H, t, p) = None"
  shows "\<exists>k x. get_next_loop P its name bytes H' (init_xattr_key ino U32_MAX U64_MAX)
                 (ino, H, t, pp) xat lp p = Some (Inl EIO, k, x)"
proof (cases "scoutfs_item_next its (ino, H, t, p) (init_xattr_key ino U32_MAX U64_MAX)
                (bytes - length xat)")
  case (Inl e)
  then have "e = ENOENT" by (rule item_next_Inl)
  with Inl p show ?thesis by (subst get_next_loop.simps) simp
next
  case (Inr r)
  obtain k d where r: "r = (k, d)" by (cases r) auto
  from item_next_found[OF wf_storeD(1)[OF wf] Inr[unfolded r]] obtain v where
    v: "(k, v) \<in> set its" "(ino, H, t, p) \<le> k" "k \<le> init_xattr_key ino U32_MAX U64_MAX"
    and least: "\<forall>kv \<in> set its. (ino, H, t, p) \<le> fst kv \<longrightarrow> k \<le> fst kv"
    by blast
  obtain i h j p' where k: "k = (i, h, j, p')" by (cases k) auto
  from v(2,3) have i: "i = ino" by (auto simp: k init_xattr_key_def)
  have "p' \<noteq> p"
  proof
    assume pp: "p' = p"
    have "(h, j) \<noteq> (H, t)"
      using v(1) miss wf_storeD(2)[OF wf] unfolding k i pp
      by (metis map_of_eq_None_iff fst_conv image_eqI prod.inject)
    with v(2) have gt: "(H, t) < (h, j)" by (auto simp: k i pp)
    from wf_store_part0[OF wf v(1)[unfolded k i]] obtain v0 where
      "((ino, h, j, 0), v0) \<in> set its" by blast
    moreover have "(ino, H, t, p) \<le> (ino, h, j, 0::nat)" using gt by auto
    ultimately have "k \<le> (ino, h, j, 0)" using least by fastforce
    then have "p' = 0" by (auto simp: k i)
    with pp p show False by simp
  qed
  then show ?thesis using Inr r k by (subst get_next_loop.simps) simp
qed

lemma no_enoent_after_first:
  "0 < part \<Longrightarrow> part \<le> lp \<Longrightarrow> lp \<le> 255 \<Longrightarrow>
   \<exists>r k x. get_next_loop P its name bytes nh lastk key xat lp part = Some (r, k, x) \<and>
           (r = Inl EIO \<or> \<not> isl r)"
proof (induction "lp - part" arbitrary: part key xat rule: less_induct)
  case less
  show ?case
  proof (cases "scoutfs_item_next its (set_part key part) lastk (bytes - length xat)")
    case (Inl e)
    then have "e = ENOENT" by (rule item_next_Inl)
    with Inl less.prems show ?thesis
      by (subst get_next_loop.simps) (simp del: split_paired_Ex)
  next
    case (Inr r)
    obtain fkey d where r: "r = (fkey, d)" by (cases r) auto
    show ?thesis
    proof (cases "skx_part fkey = part")
      case False
      then show ?thesis using Inr r
        by (subst get_next_loop.simps) (simp del: split_paired_Ex)
    next
      case True
      note cont = get_next_loop_cont[OF less.prems(1) Inr[unfolded r] True, of P name nh lp]
      show ?thesis
      proof (cases "length (xat @ d) = bytes \<or> part = lp")
        case True
        then show ?thesis unfolding cont by (simp del: split_paired_Ex)
      next
        case False
        then have lt: "part < lp" using less.prems(2) by auto
        then have m: "(part + 1) mod 256 = part + 1" using less.prems(3) by simp
        have "lp - (part + 1) < lp - part" "0 < part + 1" "part + 1 \<le> lp" using lt by auto
        from less.hyps[OF this less.prems(3)] False m show ?thesis
          unfolding cont by (simp del: split_paired_Ex)
      qed
    qed
  qed
qed


lemma finish_upto:
  assumes ps: "0 < ps" and lt: "\<And>q. q < N \<longleftrightarrow> q * ps < length enc"
    and p: "p < m" "m \<le> N" "p * ps < bytes"
    and IH: "Suc p < N \<Longrightarrow> Suc p * ps < bytes \<Longrightarrow>
             (m * ps < bytes \<and> m < N \<longrightarrow>
                get_next_loop P its name bytes H' lastk (ino, H, t, p)
                    (take (Suc p * ps) enc) (N - 1) (Suc p) = L) \<and>
             (\<not> (m * ps < bytes \<and> m < N) \<longrightarrow>
                (\<exists>q. get_next_loop P its name bytes H' lastk (ino, H, t, p)
                    (take (Suc p * ps) enc) (N - 1) (Suc p)
                  = Some (Inr (min bytes (length enc)), (ino, H, t, q), take bytes enc)))"
    and N255: "N \<le> 255"
    and K: "K = (if length (take (min bytes (p * ps + ps)) enc) = bytes \<or> p = N - 1
              then Some (Inr (length (take (min bytes (p * ps + ps)) enc)), (ino, H, t, p),
                         take (min bytes (p * ps + ps)) enc)
              else get_next_loop P its name bytes H' lastk (ino, H, t, p)
                     (take (min bytes (p * ps + ps)) enc) (N - 1) ((p + 1) mod 256))"
  shows "(m * ps < bytes \<and> m < N \<longrightarrow> K = L) \<and>
         (\<not> (m * ps < bytes \<and> m < N) \<longrightarrow>
            (\<exists>q. K = Some (Inr (min bytes (length enc)), (ino, H, t, q), take bytes enc)))"
proof -
  let ?a = "p * ps"
  let ?xat' = "take (min bytes (?a + ps)) enc"
  have pN: "p < N" using p(1,2) by simp
  show ?thesis
  proof (cases "length ?xat' = bytes \<or> p = N - 1")
    case True
    have notC: "\<not> (m * ps < bytes \<and> m < N)"
    proof
      assume C: "m * ps < bytes \<and> m < N"
      then have "p \<noteq> N - 1" using p(1) by auto
      with True have "length ?xat' = bytes" by blast
      moreover have "length ?xat' \<le> ?a + ps" by simp
      ultimately have "bytes \<le> ?a + ps" by linarith
      moreover have "Suc p * ps \<le> m * ps" using p(1) by (intro mult_le_mono1) simp
      ultimately show False using C by simp
    qed
    have "?xat' = take bytes enc \<and> length ?xat' = min bytes (length enc)"
    proof (cases "bytes \<le> ?a + ps")
      case True
      then show ?thesis by (simp add: min_def)
    next
      case False
      have "length ?xat' \<le> ?a + ps" by simp
      with False have "length ?xat' \<noteq> bytes" by linarith
      with \<open>length ?xat' = bytes \<or> p = N - 1\<close> have "p = N - 1" by blast
      then have "\<not> Suc p < N" by simp
      then have "length enc \<le> ?a + ps" using lt[of "Suc p"] by (simp add: add.commute)
      with False show ?thesis by (simp add: min_def)
    qed
    with True notC K show ?thesis by auto
  next
    case False
    then have p1: "Suc p < N" using pN by auto
    then have a1: "Suc p * ps < length enc" using lt by simp
    with False have b1: "Suc p * ps < bytes" by (auto simp: min_def add.commute split: if_splits)
    have x1: "?xat' = take (Suc p * ps) enc" using b1 by (simp add: min_def add.commute)
    have m: "(p + 1) mod 256 = Suc p" using p1 N255 by simp
    have "K = get_next_loop P its name bytes H' lastk (ino, H, t, p)
                    (take (Suc p * ps) enc) (N - 1) (Suc p)"
      using False K x1 m by (simp del: mult_Suc)
    with IH[OF p1 b1] show ?thesis by simp
  qed
qed

lemma read_upto:
  assumes so: "sorted (map fst its)" "distinct (map fst its)" and lim: "limits_ok P"
    and st: "parts_stored P its ino t name val m" and mN: "m \<le> N"
    and nlen: "length name \<le> SCOUTFS_XATTR_MAX_NAME_LEN P"
    and vlen: "length val \<le> SCOUTFS_XATTR_MAX_VAL_LEN P"
    and t: "t < U64_MAX"
    and H: "H = xattr_name_hash P name"
    and enc: "enc = xattr_bytes name val (length val)"
    and N: "N = SCOUTFS_XATTR_NR_PARTS P (length name) (length val)"
    and psd: "ps = SCOUTFS_XATTR_MAX_PART_SIZE P"
    and L: "L = get_next_loop P its name bytes H' (init_xattr_key ino U32_MAX U64_MAX)
                  (ino, H, t, 0) (take (m * ps) enc) (N - 1) m"
  shows "0 < p \<Longrightarrow> p \<le> m \<Longrightarrow> p < N \<Longrightarrow> p * ps < bytes \<Longrightarrow>
         (m * ps < bytes \<and> m < N \<longrightarrow>
            get_next_loop P its name bytes H' (init_xattr_key ino U32_MAX U64_MAX)
                (ino, H, t, pp) (take (p * ps) enc) (N - 1) p = L) \<and>
         (\<not> (m * ps < bytes \<and> m < N) \<longrightarrow>
            (\<exists>q. get_next_loop P its name bytes H' (init_xattr_key ino U32_MAX U64_MAX)
                (ino, H, t, pp) (take (p * ps) enc) (N - 1) p
              = Some (Inr (min bytes (length enc)), (ino, H, t, q), take bytes enc)))"
proof (induction "m - p" arbitrary: p pp rule: less_induct)
  case less
  let ?lastk = "init_xattr_key ino U32_MAX U64_MAX"
  show ?case
  proof (cases "p = m")
    case True
    have "get_next_loop P its name bytes H' ?lastk (ino, H, t, pp) (take (m * ps) enc) (N - 1) m = L"
      unfolding L by (rule get_next_loop_key)
    then show ?thesis using True less.prems(3,4) by simp
  next
    case False
    then have pm: "p < m" using less.prems(2) by simp
    have ps: "0 < ps" using lim by (simp add: limits_ok_def sizeof_xattr_def psd)
    have len: "length enc = sizeof_xattr + length name + length val"
      by (simp add: enc xattr_bytes_length)
    have N255: "N \<le> 255" unfolding N by (rule nr_parts_bound[OF lim nlen vlen])
    have lt: "q < N \<longleftrightarrow> q * ps < length enc" for q
      unfolding N psd len by (rule nr_parts_less_iff[OF ps[unfolded psd]])
    let ?a = "p * ps"
    have a: "?a < length enc" using less.prems(3) lt by simp
    then have lxat: "length (take ?a enc) = ?a" by simp
    have "H < 2 ^ 32" by (simp add: H xattr_name_hash_def)
    then have "H \<le> U32_MAX" by (simp add: U32_MAX_def)
    then have inr: "(ino, H, t, p) \<le> ?lastk" using t by (auto simp: init_xattr_key_def)
    have "map_of its (ino, H, t, p) = Some (take ps (drop ?a enc))"
      using st pm by (simp add: parts_stored_def H enc psd)
    from item_next_exact[OF so this inr]
    have nx: "scoutfs_item_next its (ino, H, t, p) ?lastk (bytes - ?a)
              = Inr ((ino, H, t, p), take (bytes - ?a) (take ps (drop ?a enc)))" .
    have xat': "take ?a enc @ take (bytes - ?a) (take ps (drop ?a enc))
                = take (min bytes (?a + ps)) enc"
      by (rule take_chunk[OF less.prems(4)])
    have nx': "scoutfs_item_next its (set_part (ino, H, t, pp) p) ?lastk (bytes - length (take ?a enc))
              = Inr ((ino, H, t, p), take (bytes - ?a) (take ps (drop ?a enc)))"
      using nx lxat by simp
    have sp: "skx_part (ino, H, t, p) = p" by simp
    note unfold = get_next_loop_cont[OF less.prems(1) nx' sp, of P name H' "N - 1", unfolded xat']
    have IH: "(m * ps < bytes \<and> m < N \<longrightarrow>
                get_next_loop P its name bytes H' ?lastk (ino, H, t, p)
                    (take (Suc p * ps) enc) (N - 1) (Suc p) = L) \<and>
             (\<not> (m * ps < bytes \<and> m < N) \<longrightarrow>
                (\<exists>q. get_next_loop P its name bytes H' ?lastk (ino, H, t, p)
                    (take (Suc p * ps) enc) (N - 1) (Suc p)
                  = Some (Inr (min bytes (length enc)), (ino, H, t, q), take bytes enc)))"
      if "Suc p < N" "Suc p * ps < bytes"
    proof -
      have "m - Suc p < m - p" "0 < Suc p" "Suc p \<le> m" using pm by simp_all
      from less.hyps[OF this that, of p] show ?thesis by simp
    qed
    from finish_upto[OF ps lt pm mN less.prems(4) IH N255 unfold]
    show ?thesis by simp
  qed
qed

lemma get_next_xattr_upto:
  assumes wf: "wf_store P ino its" and lim: "limits_ok P"
    and st: "parts_stored P its ino t name val m" and m: "0 < m" "m \<le> N"
    and ne: "name \<noteq> []"
    and nlen: "length name \<le> SCOUTFS_XATTR_MAX_NAME_LEN P"
    and vlen: "length val \<le> SCOUTFS_XATTR_MAX_VAL_LEN P"
    and bytes: "sizeof_xattr + length name \<le> bytes"
    and H: "H = xattr_name_hash P name"
    and enc: "enc = xattr_bytes name val (length val)"
    and N: "N = SCOUTFS_XATTR_NR_PARTS P (length name) (length val)"
    and psd: "ps = SCOUTFS_XATTR_MAX_PART_SIZE P"
  shows "(m * ps < bytes \<and> m < N \<longrightarrow>
            get_next_xattr P its ino bytes name nh 0 =
              get_next_loop P its name bytes H (init_xattr_key ino U32_MAX U64_MAX)
                  (ino, H, t, 0) (take (m * ps) enc) (N - 1) m) \<and>
         (\<not> (m * ps < bytes \<and> m < N) \<longrightarrow>
            (\<exists>q. get_next_xattr P its ino bytes name nh 0
              = Some (Inr (min bytes (length enc)), (ino, H, t, q), take bytes enc)))"
proof -
  let ?lastk = "init_xattr_key ino U32_MAX U64_MAX"
  have psn: "sizeof_xattr + length name \<le> ps"
    using lim nlen by (simp add: limits_ok_def psd)
  then have ps: "0 < ps" by (simp add: sizeof_xattr_def)
  have len: "length enc = sizeof_xattr + length name + length val"
    by (simp add: enc xattr_bytes_length)
  have N0: "0 < N" and N255: "N \<le> 255"
    unfolding N by (rule nr_parts_bound[OF lim nlen vlen])+
  have lt: "q < N \<longleftrightarrow> q * ps < length enc" for q
    unfolding N psd len by (rule nr_parts_less_iff[OF ps[unfolded psd]])
  have n255: "length name \<le> 255" and v65535: "length val \<le> 65535"
    using lim nlen vlen by (auto simp: limits_ok_def)
  note hdr = xattr_bytes_header[OF n255 v65535, of val, folded enc]
  have m0: "map_of its (ino, H, t, 0) = Some (take ps enc)"
    using st m(1) by (simp add: parts_stored_def H enc psd)
  then have in0: "((ino, H, t, 0), take ps enc) \<in> set its" by (rule map_of_SomeD)
  have ps3: "sizeof_xattr \<le> ps" using psn by simp
  have sn: "stored_name (take ps enc) = name"
  proof -
    have "take (length name) (drop sizeof_xattr (take ps enc))
          = take (length name) (drop sizeof_xattr enc)"
      using psn by (simp add: drop_take min_def)
    then show ?thesis using hdr(1,3)
      by (simp add: stored_name_def hdr_take[OF ps3] xat_name_def)
  qed
  have t: "t < U64_MAX"
    using wf_store_first_part[OF wf in0] by (simp add: first_part_ok_def)
  have b3: "sizeof_xattr \<le> min bytes ps" using bytes ps3 by simp
  have d: "take bytes (take ps enc) = take (min bytes (0 * ps + ps)) enc" by simp
  have np: "xattr_nr_parts P (take (min bytes (0 * ps + ps)) enc) = N"
    using b3 by (simp add: xattr_nr_parts_def hdr_take hdr N)
  have lp: "(N + 255) mod 256 = N - 1" using N0 N255 by (simp add: mod_if)
  have one: "(1::nat) = (0 + 1) mod 256" by simp
  have b0: "0 * ps < bytes" using bytes by (simp add: sizeof_xattr_def)
  note sm = scan_match[OF wf ne bytes in0 sn le0, of 0 0, unfolded Let_def d np lp]
  have sm': "get_next_loop P its name bytes H ?lastk (ino, H, 0, 0) [] 0 0 =
     (if length (take (min bytes (0 * ps + ps)) enc) = bytes \<or> 0 = N - 1
              then Some (Inr (length (take (min bytes (0 * ps + ps)) enc)), (ino, H, t, 0),
                         take (min bytes (0 * ps + ps)) enc)
              else get_next_loop P its name bytes H ?lastk (ino, H, t, 0)
                     (take (min bytes (0 * ps + ps)) enc) (N - 1) ((0 + 1) mod 256))"
    unfolding sm by simp
  note ru = read_upto[OF wf_storeD[OF wf] lim st m(2) nlen vlen t H enc N psd refl, of "Suc 0" bytes H 0]
  have IH: "(m * ps < bytes \<and> m < N \<longrightarrow>
                get_next_loop P its name bytes H ?lastk (ino, H, t, 0)
                    (take (Suc 0 * ps) enc) (N - 1) (Suc 0)
                = get_next_loop P its name bytes H ?lastk (ino, H, t, 0) (take (m * ps) enc) (N - 1) m) \<and>
             (\<not> (m * ps < bytes \<and> m < N) \<longrightarrow>
                (\<exists>q. get_next_loop P its name bytes H ?lastk (ino, H, t, 0)
                    (take (Suc 0 * ps) enc) (N - 1) (Suc 0)
                  = Some (Inr (min bytes (length enc)), (ino, H, t, q), take bytes enc)))"
    if "Suc 0 < N" "Suc 0 * ps < bytes"
    using ru that m(1) by simp
  have gx: "get_next_xattr P its ino bytes name nh 0
            = get_next_loop P its name bytes H ?lastk (ino, H, 0, 0) [] 0 0"
    using ne bytes by (simp add: get_next_xattr_def Let_def init_xattr_key_def H)
  show ?thesis
  proof (cases "m = 0")
    case True
    with m(1) show ?thesis by simp
  next
    case False
    then have m0': "0 < m" by simp
    from finish_upto[OF ps lt m0' m(2) b0 IH N255 sm']
    show ?thesis unfolding gx by simp
  qed
qed


lemma get_next_xattr_full:
  assumes wf: "wf_store P ino its" and lim: "limits_ok P"
    and st: "xattr_stored P its ino t name val"
    and ne: "name \<noteq> []"
    and nlen: "length name \<le> SCOUTFS_XATTR_MAX_NAME_LEN P"
    and vlen: "length val \<le> SCOUTFS_XATTR_MAX_VAL_LEN P"
    and bytes: "sizeof_xattr + length name \<le> bytes"
  shows "\<exists>q. get_next_xattr P its ino bytes name nh 0
           = Some (Inr (min bytes (sizeof_xattr + length name + length val)),
                   (ino, xattr_name_hash P name, t, q),
                   take bytes (xattr_bytes name val (length val)))"
proof -
  have N0: "0 < SCOUTFS_XATTR_NR_PARTS P (length name) (length val)"
    by (rule nr_parts_bound[OF lim nlen vlen])
  from get_next_xattr_upto[OF wf lim st[unfolded xattr_stored_def] N0 order_refl ne nlen vlen
      bytes refl refl refl refl, of nh]
  show ?thesis by (simp add: xattr_bytes_length)
qed

section \<open>Facts about the examples\<close>

lemmas ex_defs = s_ex_def s_empty_def P_ex_def E_ok_def first_part_ok_def xat_name_len_def
  xat_val_len_def sizeof_xattr_def xattr_name_hash_def stored_name_def xat_name_def U64_MAX_def
  U32_MAX_def xattr_nr_parts_def SCOUTFS_XATTR_NR_PARTS_def limits_ok_def wf_store_def
  name_absent_def unknown_prefix_def XATTR_USER_PREFIX_def log_events_def xattr_stored_def
  parts_stored_def xattr_bytes_def s_lost_def

lemmas eval_defs = scoutfs_setxattr_def scoutfs_removexattr_def scoutfs_xattr_set_def
  scoutfs_getxattr_def XATTR_CREATE_def XATTR_REPLACE_def get_next_xattr_def init_xattr_key_def
  get_next_loop.simps scoutfs_item_next_def bad_first_part_def xattr_names_equal_def
  index_hold_retry.simps xattr_set_items_def Let_def create_xattr_items_def
  scoutfs_listxattr_def listxattr_loop.simps
  delete_xattr_items_def scoutfs_item_create_def scoutfs_item_delete_save_def
  scoutfs_item_restore_def scoutfs_item_delete_dirty_def item_insert_def item_remove_def
  xattr_full_bytes_def

lemma all_less_three: "(\<forall>p<(3::nat). Q p) = (Q 0 \<and> Q 1 \<and> Q 2)"
  by (auto simp: less_Suc_eq numeral_3_eq_3 numeral_2_eq_2)

lemma char_eq_char_of: "(c = char_of (n::nat)) = (of_char c = n mod 256)"
  by (metis char_of_char char_of_mod_256 of_char_of)

lemma ex_limits_ok: "limits_ok P_ex"
  by (simp add: ex_defs)

lemma ex_wf_store: "wf_store P_ex (i_ino s_ex) (items s_ex)"
  by (simp add: ex_defs)

lemma ex_env_ok: "\<not> kmalloc_fails E_ok" "lock_inode_ret E_ok = None"
  by (simp_all add: E_ok_def)

lemma ex_stored_a:
  "xattr_stored P_ex (items s_ex) (i_ino s_ex) 2 ''user.a''
     ''0123456789abcdefghijklmnopqrstuvwxyz''"
  by (simp add: ex_defs all_less_three char_eq_char_of)

lemma ex_absent_c: "name_absent (i_ino s_ex) (items s_ex) ''user.c''"
  by (simp add: ex_defs)

section \<open>The existence flags\<close>



section \<open>Removing a name that is not stored\<close>

text \<open>
  Claim C4 as stated fails: \<open>scoutfs_removexattr\<close> passes \<open>XATTR_REPLACE\<close>, so for a
  name that is not stored it returns \<open>-ENODATA\<close>, not success.  Here the store is empty.
\<close>

theorem remove_absent_counterexample:
  "name_absent (i_ino s_empty) (items s_empty) ''user.a'' \<and>
   scoutfs_removexattr P_ex E_ok s_empty ''user.a'' =
     Some (Some ENODATA, s_empty\<lparr>trace := [EvLockInode DLM_LOCK_EX, EvUnlock DLM_LOCK_EX]\<rparr>)"
  by (simp add: name_absent_def s_empty_def P_ex_def E_ok_def unknown_prefix_def
      XATTR_USER_PREFIX_def sizeof_xattr_def log_events_def eval_defs)

text \<open>
  Claim C4, amended.  In a well-formed store, for a name of a known namespace within the
  length limit that no stored xattr has, and when the allocation and the cluster lock
  succeed, \<open>scoutfs_removexattr\<close> returns \<open>-ENODATA\<close>; the set function called with no
  value and no flag returns success.  Either way the state after the call is the state
  before it with the lock and unlock events added to the trace: the item store is
  unchanged and no transaction is held.
\<close>

theorem remove_absent:
  assumes "limits_ok P" "wf_store P (i_ino s) (items s)"
    and "\<not> unknown_prefix name" "length name \<le> SCOUTFS_XATTR_MAX_NAME_LEN P"
    and "\<not> kmalloc_fails E" "lock_inode_ret E = None"
    and "name_absent (i_ino s) (items s) name"
  shows "scoutfs_removexattr P E s name =
           Some (Some ENODATA, log_events [EvLockInode DLM_LOCK_EX, EvUnlock DLM_LOCK_EX] s) \<and>
         scoutfs_xattr_set P E s name None 0 0 =
           Some (None, log_events [EvLockInode DLM_LOCK_EX, EvUnlock DLM_LOCK_EX] s)"
proof -
  have ne: "name \<noteq> []" by (rule known_prefix_nonempty[OF assms(3)])
  have small: "(sizeof_xattr + length name) mod 2 ^ 32 = sizeof_xattr + length name"
    using assms(1,4) by (simp add: limits_ok_def sizeof_xattr_def)
  from get_next_xattr_absent[OF assms(2) ne _ assms(7), of "sizeof_xattr + length name" 0 0]
  obtain k x where "get_next_xattr P (items s) (i_ino s) (sizeof_xattr + length name) name 0 0
        = Some (Inl ENOENT, k, x)" by auto
  then show ?thesis
    using assms small
    by (simp add: scoutfs_removexattr_def scoutfs_xattr_set_def log_events_def Let_def
        XATTR_CREATE_def XATTR_REPLACE_def)
qed

theorem remove_absent_witness:
  "scoutfs_removexattr P_ex E_ok s_ex ''user.c'' =
     Some (Some ENODATA, s_ex\<lparr>trace := [EvLockInode DLM_LOCK_EX, EvUnlock DLM_LOCK_EX]\<rparr>) \<and>
   scoutfs_xattr_set P_ex E_ok s_ex ''user.c'' None 0 0 =
     Some (None, s_ex\<lparr>trace := [EvLockInode DLM_LOCK_EX, EvUnlock DLM_LOCK_EX]\<rparr>)"
proof -
  have n: "\<not> unknown_prefix ''user.c''" "length ''user.c'' \<le> SCOUTFS_XATTR_MAX_NAME_LEN P_ex"
    by (simp_all add: ex_defs)
  from remove_absent [OF ex_limits_ok ex_wf_store n ex_env_ok ex_absent_c]
  show ?thesis by (simp add: log_events_def s_ex_def)
qed

section \<open>Reading with a small buffer\<close>

text \<open>
  Claim C7.  In a well-formed store that holds the xattr \<open>name = val\<close> (name and value
  within the limits, the name of a known namespace), and when the allocation and the
  cluster lock succeed: \<open>scoutfs_getxattr\<close> with a buffer size \<open>sz\<close>, \<open>0 < sz < length val\<close>,
  returns \<open>-ERANGE\<close> and leaves the caller's buffer as it was; with size 0 it returns
  the length of the value, whatever the buffer is, and does not write to it.
\<close>

theorem getxattr_small_buffer:
  assumes "limits_ok P" "wf_store P (i_ino s) (items s)"
    and "xattr_stored P (items s) (i_ino s) t name val"
    and "\<not> unknown_prefix name" "length name \<le> SCOUTFS_XATTR_MAX_NAME_LEN P"
    and "length val \<le> SCOUTFS_XATTR_MAX_VAL_LEN P"
    and "\<not> kmalloc_fails E" "lock_inode_ret E = None"
    and "0 < sz" "sz < length val"
  shows "scoutfs_getxattr P E s name buffer sz =
           Some ((Inl ERANGE, buffer),
                 log_events [EvLockInode DLM_LOCK_PR, EvUnlock DLM_LOCK_PR] s) \<and>
         scoutfs_getxattr P E s name buffer' 0 =
           Some ((Inr (length val), buffer'),
                 log_events [EvLockInode DLM_LOCK_PR, EvUnlock DLM_LOCK_PR] s)"
proof -
  have ne: "name \<noteq> []" by (rule known_prefix_nonempty[OF assms(4)])
  have n255: "length name \<le> 255" and v65535: "length val \<le> 65535"
    using assms(1,5,6) by (auto simp: limits_ok_def)
  have small: "(sizeof_xattr + length name + n) mod 2 ^ 32 = sizeof_xattr + length name + n"
    if "n \<le> length val" for n
    using n255 v65535 that by (simp add: sizeof_xattr_def)
  have vl: "xat_val_len (take (sizeof_xattr + length name + n) (xattr_bytes name val (length val)))
            = length val" for n
    by (simp add: hdr_take xattr_bytes_header[OF n255 v65535])
  from get_next_xattr_full[OF assms(2,1,3) ne assms(5,6), of "sizeof_xattr + length name + sz" 0]
  obtain q where "get_next_xattr P (items s) (i_ino s) (sizeof_xattr + length name + sz) name 0 0 =
     Some (Inr (min (sizeof_xattr + length name + sz) (sizeof_xattr + length name + length val)),
           (i_ino s, xattr_name_hash P name, t, q),
           take (sizeof_xattr + length name + sz) (xattr_bytes name val (length val)))"
    by auto
  then have a: "scoutfs_getxattr P E s name buffer sz =
           Some ((Inl ERANGE, buffer),
                 log_events [EvLockInode DLM_LOCK_PR, EvUnlock DLM_LOCK_PR] s)"
    using assms small[of sz] vl[of sz]
    by (simp add: scoutfs_getxattr_def Let_def)
  from get_next_xattr_full[OF assms(2,1,3) ne assms(5,6), of "sizeof_xattr + length name + 0" 0]
  obtain q where "get_next_xattr P (items s) (i_ino s) (sizeof_xattr + length name + 0) name 0 0 =
     Some (Inr (min (sizeof_xattr + length name + 0) (sizeof_xattr + length name + length val)),
           (i_ino s, xattr_name_hash P name, t, q),
           take (sizeof_xattr + length name + 0) (xattr_bytes name val (length val)))"
    by auto
  then have b: "scoutfs_getxattr P E s name buffer' 0 =
           Some ((Inr (length val), buffer'),
                 log_events [EvLockInode DLM_LOCK_PR, EvUnlock DLM_LOCK_PR] s)"
    using assms small[of 0] vl[of 0]
    by (simp add: scoutfs_getxattr_def Let_def)
  from a b show ?thesis by simp
qed

theorem getxattr_small_buffer_witness:
  "scoutfs_getxattr P_ex E_ok s_ex ''user.a'' ''..........'' 10 =
     Some ((Inl ERANGE, ''..........''),
           s_ex\<lparr>trace := [EvLockInode DLM_LOCK_PR, EvUnlock DLM_LOCK_PR]\<rparr>) \<and>
   scoutfs_getxattr P_ex E_ok s_ex ''user.a'' [] 0 =
     Some ((Inr 36, []), s_ex\<lparr>trace := [EvLockInode DLM_LOCK_PR, EvUnlock DLM_LOCK_PR]\<rparr>)"
proof -
  have n: "\<not> unknown_prefix ''user.a''" "length ''user.a'' \<le> SCOUTFS_XATTR_MAX_NAME_LEN P_ex"
    "length ''0123456789abcdefghijklmnopqrstuvwxyz'' \<le> SCOUTFS_XATTR_MAX_VAL_LEN P_ex"
    by (simp_all add: ex_defs)
  have z: "0 < (10::nat)" "10 < length ''0123456789abcdefghijklmnopqrstuvwxyz''"
    by simp_all
  from getxattr_small_buffer [OF ex_limits_ok ex_wf_store ex_stored_a n ex_env_ok z,
      of "''..........''" "[]"]
  show ?thesis by (simp add: log_events_def s_ex_def)
qed

section \<open>Dropping all the xattrs of an inode\<close>

lemma sorted_item_remove: "sorted (map fst its) \<Longrightarrow> sorted (map fst (item_remove k its))"
  by (simp add: item_remove_def sorted_filter)

lemma distinct_item_remove: "distinct (map fst its) \<Longrightarrow> distinct (map fst (item_remove k its))"
  by (simp add: item_remove_def distinct_map_filter)

lemma set_item_remove: "set (item_remove k its) = {kv \<in> set its. fst kv \<noteq> k}"
  by (auto simp: item_remove_def)

lemma drop_loop_props:
  assumes "xattr_drop_loop hold its tr key lastk n holding = (r, its', tr', holding')"
    and "sorted (map fst its)"
    and "0 < n" "n \<le> 16" "holding \<or> n = 16"
  shows "\<exists>evs c. tr' = tr @ evs \<and>
           fold (batch_step 16) evs (Some (holding, 16 - n)) = Some (holding', c) \<and>
           (r = None \<longrightarrow> (\<forall>kv \<in> set its'. \<not> (key \<le> fst kv \<and> fst kv \<le> lastk)) \<and>
                          set its' \<subseteq> set its)"
  using assms
proof (induction hold its tr key lastk n holding arbitrary: r its' tr' holding'
    rule: xattr_drop_loop.induct)
  case (1 hold its tr key lastk n holding)
  show ?case
  proof (cases "scoutfs_item_next its key lastk 0")
    case (Inl e)
    then have e: "e = ENOENT" by (rule item_next_Inl)
    from item_next_none[OF "1.prems"(2) Inl]
    have none: "\<forall>kv \<in> set its. \<not> (key \<le> fst kv \<and> fst kv \<le> lastk)" .
    from "1.prems"(1) Inl e have "r = None" "its' = its" "tr' = tr" "holding' = holding"
      by (simp_all add: xattr_drop_loop.simps[of hold its tr key lastk n holding])
    with none show ?thesis by simp
  next
    case (Inr x)
    obtain fkey data where x: "x = (fkey, data)" by (cases x) auto
    from item_next_found[OF "1.prems"(2) Inr[unfolded x]] obtain v where
      v: "(fkey, v) \<in> set its" "key \<le> fkey" "fkey \<le> lastk"
      and least: "\<forall>kv \<in> set its. key \<le> fst kv \<longrightarrow> fkey \<le> fst kv" by blast
    show ?thesis
    proof (cases "if \<not> holding then hold fkey else None")
      case (Some e)
      with "1.prems"(1) Inr x have "r = Some e" "tr' = tr" "holding' = holding"
        by (simp_all add: xattr_drop_loop.simps[of hold its tr key lastk n holding])
      then show ?thesis by simp
    next
      case None
      define tr1 where "tr1 = (if \<not> holding then tr @ [EvHoldTrans] else tr)"
      have present: "map_of its fkey \<noteq> None"
        using v(1) by (metis map_of_eq_None_iff fst_conv image_eqI)
      then have del: "scoutfs_item_delete its fkey = (None, item_remove fkey its)"
        by (simp add: scoutfs_item_delete_def)
      define n' where "n' = (n + 4294967295) mod 4294967296"
      have "n + 4294967295 = (n - 1) + 4294967296" using "1.prems"(3) by simp
      then have n': "n' = n - 1" using "1.prems"(4) unfolding n'_def by (simp only: mod_add_self2) simp
      define tr2 where "tr2 = tr1 @ [EvItemDelete fkey]"
      let ?its1 = "item_remove fkey its"
      have so1: "sorted (map fst ?its1)" by (rule sorted_item_remove[OF "1.prems"(2)])
      have rest: "\<not> (key \<le> fst kv \<and> fst kv \<le> lastk)"
        if "kv \<in> set its2" "set its2 \<subseteq> set ?its1"
           "\<forall>kv \<in> set its2. \<not> (fkey \<le> fst kv \<and> fst kv \<le> lastk)" for kv its2
      proof
        assume a: "key \<le> fst kv \<and> fst kv \<le> lastk"
        from that(1,2) have "kv \<in> set its" by (auto simp: set_item_remove)
        with least a have "fkey \<le> fst kv" by blast
        with that(1,3) a show False by blast
      qed
      have sub: "set ?its1 \<subseteq> set its" by (auto simp: set_item_remove)
      show ?thesis
      proof (cases "n' = 0")
        case True
        then have n1: "n = 1" using n' "1.prems"(3) by simp
        with "1.prems"(5) have h: "holding" by simp
        from "1.prems"(1) Inr x None del True
        have run: "xattr_drop_loop hold ?its1 (tr2 @ [EvReleaseTrans]) fkey lastk 16 False
                   = (r, its', tr', holding')"
          by (simp add: xattr_drop_loop.simps[of hold its tr key lastk n holding] Let_def
              n'_def tr1_def tr2_def)
        from "1.IH"(1)[OF Inr[unfolded x] refl None tr1_def del[symmetric] refl
            n'_def tr2_def True run so1]
        obtain evs c where evs: "tr' = (tr2 @ [EvReleaseTrans]) @ evs"
          "fold (batch_step 16) evs (Some (False, 16 - 16)) = Some (holding', c)"
          "r = None \<longrightarrow> (\<forall>kv \<in> set its'. \<not> (fkey \<le> fst kv \<and> fst kv \<le> lastk)) \<and>
                          set its' \<subseteq> set ?its1"
          by auto
        have "tr' = tr @ ([EvItemDelete fkey, EvReleaseTrans] @ evs)"
          using evs(1) h by (simp add: tr2_def tr1_def)
        moreover have "fold (batch_step 16) ([EvItemDelete fkey, EvReleaseTrans] @ evs)
                         (Some (holding, 16 - n)) = Some (holding', c)"
          using evs(2) h n1 by simp
        moreover have "r = None \<longrightarrow> (\<forall>kv \<in> set its'. \<not> (key \<le> fst kv \<and> fst kv \<le> lastk)) \<and>
                          set its' \<subseteq> set its"
          using evs(3) rest sub by blast
        ultimately show ?thesis by blast
      next
        case False
        then have n2: "1 < n" using n' by simp
        from "1.prems"(1) Inr x None del False
        have run: "xattr_drop_loop hold ?its1 tr2 fkey lastk n' True = (r, its', tr', holding')"
          by (simp add: xattr_drop_loop.simps[of hold its tr key lastk n holding] Let_def
              n'_def tr1_def tr2_def)
        have nn: "0 < n'" "n' \<le> 16" "True \<or> n' = 16" using n' n2 "1.prems"(4) by simp_all
        from "1.IH"(2)[OF Inr[unfolded x] refl None tr1_def del[symmetric] refl
            n'_def tr2_def False run so1 nn]
        obtain evs c where evs: "tr' = tr2 @ evs"
          "fold (batch_step 16) evs (Some (True, 16 - n')) = Some (holding', c)"
          "r = None \<longrightarrow> (\<forall>kv \<in> set its'. \<not> (fkey \<le> fst kv \<and> fst kv \<le> lastk)) \<and>
                          set its' \<subseteq> set ?its1"
          by auto
        have c16: "16 - n < 16" "Suc (16 - n) = 16 - n'" using n' n2 "1.prems"(4) by simp_all
        show ?thesis
        proof (cases holding)
          case True
          have "tr' = tr @ ([EvItemDelete fkey] @ evs)"
            using evs(1) True by (simp add: tr2_def tr1_def)
          moreover have "fold (batch_step 16) ([EvItemDelete fkey] @ evs)
                         (Some (holding, 16 - n)) = Some (holding', c)"
            using evs(2) True c16 by simp
          moreover have "r = None \<longrightarrow> (\<forall>kv \<in> set its'. \<not> (key \<le> fst kv \<and> fst kv \<le> lastk)) \<and>
                          set its' \<subseteq> set its"
            using evs(3) rest sub by blast
          ultimately show ?thesis by blast
        next
          case False
          with "1.prems"(5) have n16: "n = 16" by simp
          have "tr' = tr @ ([EvHoldTrans, EvItemDelete fkey] @ evs)"
            using evs(1) False by (simp add: tr2_def tr1_def)
          moreover have "fold (batch_step 16) ([EvHoldTrans, EvItemDelete fkey] @ evs)
                         (Some (holding, 16 - n)) = Some (holding', c)"
            using evs(2) False n16 n' by simp
          moreover have "r = None \<longrightarrow> (\<forall>kv \<in> set its'. \<not> (key \<le> fst kv \<and> fst kv \<le> lastk)) \<and>
                          set its' \<subseteq> set its"
            using evs(3) rest sub by blast
          ultimately show ?thesis by blast
        qed
      qed
    qed
  qed
qed


lemma batch_idle_zero:
  "fold (batch_step lim) es (Some (h0, c0)) = Some (h, c) \<Longrightarrow> h0 \<or> c0 = 0 \<Longrightarrow> h \<or> c = 0"
proof (induction es arbitrary: h0 c0)
  case Nil
  then show ?case by auto
next
  case (Cons e es)
  show ?case
  proof (cases "batch_step lim e (Some (h0, c0))")
    case None
    have "fold (batch_step lim) es None = None" for es
      by (induction es) simp_all
    with None Cons.prems(1) show ?thesis by simp
  next
    case (Some st)
    obtain h1 c1 where st: "st = (h1, c1)" by (cases st) auto
    have "h1 \<or> c1 = 0" using Some Cons.prems(2) unfolding st
      by (cases e) (auto split: if_splits)
    moreover have "fold (batch_step lim) es (Some (h1, c1)) = Some (h, c)"
      using Cons.prems(1) Some st by simp
    ultimately show ?thesis by (rule Cons.IH[rotated])
  qed
qed

lemma item_next_range_empty:
  assumes "range_empty ino its" "init_xattr_key ino 0 0 \<le> key"
  shows "scoutfs_item_next its key (init_xattr_key ino U32_MAX U64_MAX) len = Inl ENOENT"
proof (cases "find (\<lambda>kv. key \<le> fst kv) its")
  case None
  then show ?thesis by (simp add: scoutfs_item_next_def)
next
  case (Some kv)
  then have "kv \<in> set its" "key \<le> fst kv"
    by (auto simp: find_Some_iff)
  with assms have "\<not> fst kv \<le> init_xattr_key ino U32_MAX U64_MAX"
    unfolding range_empty_def by (meson order_trans)
  with Some show ?thesis by (simp add: scoutfs_item_next_def)
qed

text \<open>
  Claim C9.  When \<open>scoutfs_xattr_drop\<close> returns success for the inode, no item is left
  in the key range of the inode's xattrs; then \<open>scoutfs_getxattr\<close> returns \<open>-ENODATA\<close>
  for every name of a known namespace within the length limit, and \<open>scoutfs_listxattr\<close>
  returns 0 and leaves the buffer as it was (allocation and cluster lock succeeding).
  The events that the drop added to the trace form transactions of at most 16 deletions
  each, with every deletion inside a transaction and the last transaction released.
\<close>

theorem drop_removes_all:
  assumes so: "sorted (map fst (items s))"
    and run: "scoutfs_xattr_drop E s (i_ino s) = (None, s')"
    and name: "\<not> unknown_prefix name" "length name \<le> SCOUTFS_XATTR_MAX_NAME_LEN P"
      "sizeof_xattr + length name + sz < 2 ^ 32"
    and env: "\<not> kmalloc_fails E'" "lock_inode_ret E' = None"
  shows "range_empty (i_ino s) (items s') \<and>
         scoutfs_getxattr P E' s' name buffer sz =
           Some ((Inl ENODATA, buffer),
                 log_events [EvLockInode DLM_LOCK_PR, EvUnlock DLM_LOCK_PR] s') \<and>
         scoutfs_listxattr P E' s' buffer sz' =
           Some ((Inr 0, buffer),
                 log_events [EvLockInode DLM_LOCK_PR, EvUnlock DLM_LOCK_PR] s') \<and>
         (\<exists>evs. trace s' = trace s @ evs \<and> batches_ok 16 evs)"
proof -
  let ?ino = "i_ino s"
  let ?lastk = "init_xattr_key ?ino U32_MAX U64_MAX"
  obtain r its' tr' holding' where
    loop: "xattr_drop_loop (hold_trans_ret E) (items s) (trace s) (init_xattr_key ?ino 0 0)
             ?lastk 16 False = (r, its', tr', holding')"
    by (metis prod_cases4)
  with run have r: "r = None"
    and s': "s' = s\<lparr>items := its', trace := (if holding' then tr' @ [EvReleaseTrans] else tr')\<rparr>"
    by (simp_all add: scoutfs_xattr_drop_def)
  from drop_loop_props[OF loop so] obtain evs c where
    evs: "tr' = trace s @ evs"
      "fold (batch_step 16) evs (Some (False, 16 - 16)) = Some (holding', c)"
      "r = None \<longrightarrow> (\<forall>kv \<in> set its'. \<not> (init_xattr_key ?ino 0 0 \<le> fst kv \<and> fst kv \<le> ?lastk))"
    by auto
  have re: "range_empty ?ino (items s')"
    using evs(3) r by (simp add: range_empty_def s')
  have ino': "i_ino s' = ?ino" by (simp add: s')
  have tr: "\<exists>evs. trace s' = trace s @ evs \<and> batches_ok 16 evs"
  proof (cases holding')
    case True
    have "trace s' = trace s @ (evs @ [EvReleaseTrans])" using True evs(1) by (simp add: s')
    moreover have "batches_ok 16 (evs @ [EvReleaseTrans])"
      using evs(2) True by (simp add: batches_ok_def)
    ultimately show ?thesis by blast
  next
    case False
    have c: "c = 0" using batch_idle_zero[OF evs(2)] False by simp
    have "trace s' = trace s @ evs" using False evs(1) by (simp add: s')
    moreover have "batches_ok 16 evs" using evs(2) False c by (simp add: batches_ok_def)
    ultimately show ?thesis by blast
  qed
  have ne: "name \<noteq> []" by (rule known_prefix_nonempty[OF name(1)])
  have k0: "init_xattr_key ?ino 0 0 \<le> (?ino, xattr_name_hash P name, 0, 0)"
    by (simp add: init_xattr_key_def)
  have g: "get_next_xattr P (items s') ?ino (sizeof_xattr + length name + sz) name 0 0
           = Some (Inl ENOENT, (?ino, xattr_name_hash P name, 0, 0), [])"
    using item_next_range_empty[OF re k0] ne
    by (simp add: get_next_xattr_def Let_def init_xattr_key_def get_next_loop.simps)
  have get: "scoutfs_getxattr P E' s' name buffer sz =
           Some ((Inl ENODATA, buffer),
                 log_events [EvLockInode DLM_LOCK_PR, EvUnlock DLM_LOCK_PR] s')"
    using g name env ino' by (simp add: scoutfs_getxattr_def Let_def)
  have l: "get_next_xattr P (items s') ?ino b [] 0 0
           = Some (Inl ENOENT, (?ino, 0, 0, 0), [])" for b
    using item_next_range_empty[OF re order_refl]
    by (simp add: get_next_xattr_def Let_def init_xattr_key_def get_next_loop.simps)
  have list: "scoutfs_listxattr P E' s' buffer sz' =
           Some ((Inr 0, buffer),
                 log_events [EvLockInode DLM_LOCK_PR, EvUnlock DLM_LOCK_PR] s')"
    using l env ino' by (simp add: scoutfs_listxattr_def Let_def listxattr_loop.simps)
  from re get list tr show ?thesis by simp
qed

theorem drop_removes_all_witness:
  "scoutfs_xattr_drop E_ok s_ex 7 =
     (None, s_ex\<lparr>items := [],
                 trace := [EvHoldTrans, EvItemDelete (7, 6, 1, 0), EvItemDelete (7, 6, 2, 0),
                           EvItemDelete (7, 6, 2, 1), EvItemDelete (7, 6, 2, 2),
                           EvReleaseTrans]\<rparr>) \<and>
   scoutfs_getxattr P_ex E_ok
       (s_ex\<lparr>items := [],
             trace := [EvHoldTrans, EvItemDelete (7, 6, 1, 0), EvItemDelete (7, 6, 2, 0),
                       EvItemDelete (7, 6, 2, 1), EvItemDelete (7, 6, 2, 2),
                       EvReleaseTrans]\<rparr>) ''user.a'' ''....'' 4 =
     Some ((Inl ENODATA, ''....''),
           s_ex\<lparr>items := [],
                 trace := [EvHoldTrans, EvItemDelete (7, 6, 1, 0), EvItemDelete (7, 6, 2, 0),
                           EvItemDelete (7, 6, 2, 1), EvItemDelete (7, 6, 2, 2),
                           EvReleaseTrans, EvLockInode DLM_LOCK_PR, EvUnlock DLM_LOCK_PR]\<rparr>) \<and>
   batches_ok 16 [EvHoldTrans, EvItemDelete (7, 6, 1, 0), EvItemDelete (7, 6, 2, 0),
                  EvItemDelete (7, 6, 2, 1), EvItemDelete (7, 6, 2, 2), EvReleaseTrans]"
proof -
  have so: "sorted (map fst (items s_ex))" by (simp add: s_ex_def)
  have run: "scoutfs_xattr_drop E_ok s_ex (i_ino s_ex) =
     (None, s_ex\<lparr>items := [],
                 trace := [EvHoldTrans, EvItemDelete (7, 6, 1, 0), EvItemDelete (7, 6, 2, 0),
                           EvItemDelete (7, 6, 2, 1), EvItemDelete (7, 6, 2, 2),
                           EvReleaseTrans]\<rparr>)"
    by (simp add: scoutfs_xattr_drop_def xattr_drop_loop.simps s_ex_def E_ok_def
        init_xattr_key_def U32_MAX_def U64_MAX_def scoutfs_item_next_def scoutfs_item_delete_def
        item_remove_def)
  have n: "\<not> unknown_prefix ''user.a''" "length ''user.a'' \<le> SCOUTFS_XATTR_MAX_NAME_LEN P_ex"
    "sizeof_xattr + length ''user.a'' + 4 < 2 ^ 32"
    by (simp_all add: ex_defs)
  from drop_removes_all [OF so run n ex_env_ok, of "''....''" 4] run
  show ?thesis
    by (simp add: log_events_def s_ex_def batches_ok_def)
qed

section \<open>Listing the names\<close>

lemma filter_first:
  assumes "sorted (map fst xs)" "distinct (map fst xs)" "x \<in> set xs" "Q x"
    and "\<forall>y \<in> set xs. Q y \<longleftrightarrow> (y = x \<or> Q' y)"
    and "\<forall>y \<in> set xs. Q' y \<longrightarrow> fst x < fst y"
  shows "filter Q xs = x # filter Q' (xs :: store)"
  using assms
proof (induction xs)
  case Nil
  then show ?case by simp
next
  case (Cons a xs)
  show ?case
  proof (cases "a = x")
    case True
    have nq: "\<not> Q' x" using Cons.prems(6) True by auto
    have "filter Q xs = filter Q' xs"
    proof (rule filter_cong[OF refl])
      fix y assume y: "y \<in> set xs"
      then have "y \<noteq> x" using Cons.prems(2) True by (auto simp: image_iff)
      then show "Q y = Q' y" using Cons.prems(5) y by auto
    qed
    then show ?thesis using True Cons.prems(4) nq by simp
  next
    case False
    then have x: "x \<in> set xs" using Cons.prems(3) by simp
    then have "fst a \<le> fst x" using Cons.prems(1) by auto
    moreover have "fst a \<noteq> fst x" using Cons.prems(2) x by (auto simp: image_iff)
    ultimately have lt: "fst a < fst x" by simp
    have nq': "\<not> Q' a" using Cons.prems(6) lt by (auto simp: not_less less_imp_le)
    then have nq: "\<not> Q a" using Cons.prems(5) False by auto
    have "filter Q xs = x # filter Q' xs"
      using Cons.prems by (intro Cons.IH x) auto
    then show ?thesis using nq nq' by simp
  qed
qed

lemma get_next_xattr_list:
  assumes wf: "wf_store P ino its"
    and nx: "scoutfs_item_next its (ino, h, c, 0) (init_xattr_key ino U32_MAX U64_MAX) bytes
             = Inr (k, d)"
    and bytes: "sizeof_xattr \<le> bytes"
  shows "get_next_xattr P its ino bytes [] h c = Some (Inr (length d), k, d)"
proof -
  from wf_next_part0[OF wf nx] obtain h' j v where
    k: "k = (ino, h', j, 0)" and v: "d = take bytes v" "first_part_ok P k v" by blast
  have "\<not> bad_first_part P 0 d" using first_part_not_bad[OF v(2), of 0 bytes] bytes v(1) by simp
  then show ?thesis using nx k
    by (simp add: get_next_xattr_def init_xattr_key_def get_next_loop.simps Let_def)
qed

lemma listxattr_loop_wf:
  assumes wf: "wf_store P ino its" and lim: "limits_ok P"
    and bytes: "bytes = sizeof_xattr + SCOUTFS_XATTR_MAX_NAME_LEN P"
  shows "sz = 0 \<or> tot + length (names_buffer (rest_names ino its (ino, h, c, 0))) \<le> sz \<Longrightarrow>
         listxattr_loop P its ino bytes sz h c tot out =
           Some (Inr (tot + length (names_buffer (rest_names ino its (ino, h, c, 0)))),
                 if sz \<noteq> 0 then out @ names_buffer (rest_names ino its (ino, h, c, 0)) else out)"
proof (induction "length (filter (\<lambda>kv. (ino, h, c, 0) \<le> fst kv) its)" arbitrary: h c tot out
    rule: less_induct)
  case less
  let ?lastk = "init_xattr_key ino U32_MAX U64_MAX"
  let ?cur = "(ino, h, c, 0::nat)"
  have b3: "sizeof_xattr \<le> bytes" by (simp add: bytes)
  show ?case
  proof (cases "scoutfs_item_next its ?cur ?lastk bytes")
    case (Inl e)
    then have e: "e = ENOENT" by (rule item_next_Inl)
    from item_next_none[OF wf_storeD(1)[OF wf] Inl]
    have none: "\<forall>kv \<in> set its. \<not> (?cur \<le> fst kv \<and> fst kv \<le> ?lastk)" .
    have "filter (\<lambda>kv. ?cur \<le> fst kv \<and> skx_ino (fst kv) = ino \<and> skx_part (fst kv) = 0) its = []"
    proof (rule filter_False, rule ballI)
      fix kv assume kv: "kv \<in> set its"
      show "\<not> (?cur \<le> fst kv \<and> skx_ino (fst kv) = ino \<and> skx_part (fst kv) = 0)"
      proof
        assume a: "?cur \<le> fst kv \<and> skx_ino (fst kv) = ino \<and> skx_part (fst kv) = 0"
        obtain i h' j p v where kvd: "kv = ((i, h', j, p), v)" by (metis prod_cases4 surj_pair)
        with a have ip: "i = ino" "p = 0" by auto
        from wf_store_first_part[OF wf kv[unfolded kvd ip]]
        have "(ino, h', j, 0) \<le> ?lastk" by (rule first_part_in_range)
        with none kv a show False by (auto simp: kvd ip)
      qed
    qed
    then have r: "rest_names ino its ?cur = []" by (simp add: rest_names_def)
    have g: "get_next_xattr P its ino bytes [] h c = Some (Inl ENOENT, ?cur, [])"
      using Inl e by (simp add: get_next_xattr_def init_xattr_key_def get_next_loop.simps Let_def)
    show ?thesis
      by (subst listxattr_loop.simps) (simp add: g r names_buffer_def)
  next
    case (Inr x)
    obtain k d where x: "x = (k, d)" by (cases x) auto
    from wf_next_part0[OF wf Inr[unfolded x]] obtain h' j v where
      k: "k = (ino, h', j, 0)" and v: "(k, v) \<in> set its" "d = take bytes v" "first_part_ok P k v"
      and hj: "(h, c) \<le> (h', j)"
      and least: "\<forall>kv \<in> set its. ?cur \<le> fst kv \<longrightarrow> k \<le> fst kv"
      by blast
    note g = get_next_xattr_list[OF wf Inr[unfolded x] b3]
    have nl: "xat_name_len d = xat_name_len v" using v(2) hdr_take[OF b3] by simp
    have nlm: "xat_name_len v \<le> SCOUTFS_XATTR_MAX_NAME_LEN P"
      using v(3) by (simp add: first_part_ok_def)
    have nm: "take (xat_name_len v) (xat_name d) = stored_name v"
    proof -
      have "take (xat_name_len v) (drop sizeof_xattr (take bytes v))
            = take (xat_name_len v) (drop sizeof_xattr v)"
        using nlm by (simp add: bytes drop_take min_def)
      then show ?thesis
        unfolding stored_name_def xat_name_def v(2) hdr_take(1)[OF b3] .
    qed
    have len: "length (stored_name v) = xat_name_len v"
      using v(3) by (auto simp: stored_name_def xat_name_def first_part_ok_def)
    have h': "h' mod 4294967296 = h'"
      using v(3) k by (simp add: first_part_ok_def xattr_name_hash_def)
    have "j < U64_MAX" using v(3) k by (simp add: first_part_ok_def)
    then have j1: "Suc j mod 18446744073709551616 = Suc j" by (simp add: U64_MAX_def)
    let ?cur' = "(ino, h', j + 1, 0::nat)"
    have split: "filter (\<lambda>kv. ?cur \<le> fst kv \<and> skx_ino (fst kv) = ino \<and> skx_part (fst kv) = 0) its
         = (k, v) # filter (\<lambda>kv. ?cur' \<le> fst kv \<and> skx_ino (fst kv) = ino \<and> skx_part (fst kv) = 0) its"
    proof (rule filter_first[OF wf_storeD[OF wf] v(1)])
      show "?cur \<le> fst (k, v) \<and> skx_ino (fst (k, v)) = ino \<and> skx_part (fst (k, v)) = 0"
        using hj by (auto simp: k)
      show "\<forall>y\<in>set its. (?cur \<le> fst y \<and> skx_ino (fst y) = ino \<and> skx_part (fst y) = 0) =
              (y = (k, v) \<or> ?cur' \<le> fst y \<and> skx_ino (fst y) = ino \<and> skx_part (fst y) = 0)"
      proof
        fix y assume y: "y \<in> set its"
        obtain i2 h2 j2 p2 v2 where yd: "y = ((i2, h2, j2, p2), v2)" by (metis prod_cases4 surj_pair)
        show "(?cur \<le> fst y \<and> skx_ino (fst y) = ino \<and> skx_part (fst y) = 0) =
              (y = (k, v) \<or> ?cur' \<le> fst y \<and> skx_ino (fst y) = ino \<and> skx_part (fst y) = 0)"
        proof
          assume a: "?cur \<le> fst y \<and> skx_ino (fst y) = ino \<and> skx_part (fst y) = 0"
          with least y have "k \<le> fst y" by blast
          then have "(h', j) \<le> (h2, j2)" using a by (auto simp: yd k)
          then have "(h', j) = (h2, j2) \<or> (h', j + 1) \<le> (h2, j2)" by auto
          then show "y = (k, v) \<or> ?cur' \<le> fst y \<and> skx_ino (fst y) = ino \<and> skx_part (fst y) = 0"
          proof
            assume "(h', j) = (h2, j2)"
            then have "fst y = k" using a by (auto simp: yd k)
            then have "y = (k, v)" using y v(1) wf_storeD(2)[OF wf]
              by (metis eq_key_imp_eq_value prod.collapse)
            then show ?thesis by simp
          next
            assume "(h', j + 1) \<le> (h2, j2)"
            then show ?thesis using a by (auto simp: yd)
          qed
        next
          assume "y = (k, v) \<or> ?cur' \<le> fst y \<and> skx_ino (fst y) = ino \<and> skx_part (fst y) = 0"
          then show "?cur \<le> fst y \<and> skx_ino (fst y) = ino \<and> skx_part (fst y) = 0"
            using hj by (auto simp: yd k)
        qed
      qed
      show "\<forall>y\<in>set its. ?cur' \<le> fst y \<and> skx_ino (fst y) = ino \<and> skx_part (fst y) = 0
              \<longrightarrow> fst (k, v) < fst y"
        by (auto simp: k)
    qed
    then have rn: "rest_names ino its ?cur = stored_name v # rest_names ino its ?cur'"
      by (simp add: rest_names_def)
    have nb: "names_buffer (rest_names ino its ?cur)
              = stored_name v @ [CHR 0x00] @ names_buffer (rest_names ino its ?cur')"
      by (simp add: rn names_buffer_def)
    have "c \<le> j \<or> h < h'" using hj by auto
    have dec: "length (filter (\<lambda>kv. ?cur' \<le> fst kv) its) < length (filter (\<lambda>kv. ?cur \<le> fst kv) its)"
      using v(1) hj by (intro filter_cursor_less[of k v]) (auto simp: k)
    have fits: "sz = 0 \<or> (tot + xat_name_len v + 1) +
                   length (names_buffer (rest_names ino its ?cur')) \<le> sz"
      using less.prems by (auto simp: nb len)
    then have nr: "\<not> (sz \<noteq> 0 \<and> sz < tot + xat_name_len v + 1)" by auto
    note IH = less.hyps[OF dec fits]
    show ?thesis
      using IH fits
      by (subst listxattr_loop.simps) (auto simp: g Let_def nl nm k h' j1 nb len)
  qed
qed


lemma rest_names_all: "rest_names ino its (init_xattr_key ino 0 0) = stored_names ino its"
proof -
  have "filter (\<lambda>kv. init_xattr_key ino 0 0 \<le> fst kv \<and> skx_ino (fst kv) = ino \<and>
                      skx_part (fst kv) = 0) its
        = filter (\<lambda>kv. skx_ino (fst kv) = ino \<and> skx_part (fst kv) = 0) its"
  proof (rule filter_cong[OF refl])
    fix kv :: item
    obtain i h j p v where "kv = ((i, h, j, p), v)" by (metis prod_cases4 surj_pair)
    then show "(init_xattr_key ino 0 0 \<le> fst kv \<and> skx_ino (fst kv) = ino \<and> skx_part (fst kv) = 0)
               = (skx_ino (fst kv) = ino \<and> skx_part (fst kv) = 0)"
      by (auto simp: init_xattr_key_def)
  qed
  then show ?thesis by (simp add: rest_names_def stored_names_def)
qed

lemma stored_names_distinct:
  assumes wf: "wf_store P ino its"
  shows "distinct (stored_names ino its)"
proof -
  let ?xs = "filter (\<lambda>kv. skx_ino (fst kv) = ino \<and> skx_part (fst kv) = 0) its"
  have "distinct its" using wf_storeD(2)[OF wf] by (simp add: distinct_map)
  then have d: "distinct ?xs" by simp
  have "inj_on (\<lambda>kv. stored_name (snd kv)) (set ?xs)"
  proof (rule inj_onI)
    fix x y assume x: "x \<in> set ?xs" and y: "y \<in> set ?xs"
      and eq: "stored_name (snd x) = stored_name (snd y)"
    obtain i h j p v where xd: "x = ((i, h, j, p), v)" by (metis prod_cases4 surj_pair)
    obtain i' h' j' p' v' where yd: "y = ((i', h', j', p'), v')" by (metis prod_cases4 surj_pair)
    from x y have "((ino, h, j, 0), v) \<in> set its" "((ino, h', j', 0), v') \<in> set its"
      by (auto simp: xd yd)
    from wf_store_unique[OF wf this] eq x y show "x = y" by (auto simp: xd yd)
  qed
  with d show ?thesis by (simp add: stored_names_def distinct_map)
qed

lemma stored_names_member:
  assumes lim: "limits_ok P" and st: "xattr_stored P its ino xid name val"
    and nlen: "length name \<le> SCOUTFS_XATTR_MAX_NAME_LEN P"
    and vlen: "length val \<le> SCOUTFS_XATTR_MAX_VAL_LEN P"
  shows "name \<in> set (stored_names ino its)"
proof -
  let ?ps = "SCOUTFS_XATTR_MAX_PART_SIZE P"
  let ?enc = "xattr_bytes name val (length val)"
  have N0: "0 < SCOUTFS_XATTR_NR_PARTS P (length name) (length val)"
    by (rule nr_parts_bound[OF lim nlen vlen])
  with st have "map_of its (ino, xattr_name_hash P name, xid, 0) = Some (take ?ps ?enc)"
    by (simp add: xattr_stored_def parts_stored_def)
  then have in0: "((ino, xattr_name_hash P name, xid, 0), take ?ps ?enc) \<in> set its"
    by (rule map_of_SomeD)
  have psn: "sizeof_xattr + length name \<le> ?ps" using lim nlen by (simp add: limits_ok_def)
  then have ps3: "sizeof_xattr \<le> ?ps" by simp
  have n255: "length name \<le> 255" and v65535: "length val \<le> 65535"
    using lim nlen vlen by (auto simp: limits_ok_def)
  note hdr = xattr_bytes_header[OF n255 v65535, of val]
  have "take (length name) (drop sizeof_xattr (take ?ps ?enc))
        = take (length name) (drop sizeof_xattr ?enc)"
    using psn by (simp add: drop_take min_def)
  then have "stored_name (take ?ps ?enc) = name" using hdr(1,3)
    by (simp add: stored_name_def hdr_take[OF ps3] xat_name_def)
  with in0 show ?thesis by (force simp: stored_names_def)
qed

text \<open>
  Claim C6.  In a well-formed store, when the allocation and the cluster lock succeed,
  \<open>scoutfs_listxattr\<close> writes the names that the first parts of the inode carry, each
  followed by a NUL byte, in key order, and returns their total length; with size 0 it
  returns that length and writes nothing.  These names are pairwise distinct, and the
  name of every stored xattr is among them: every name is listed exactly once, also
  when name hashes collide, since the loop goes on from the found hash and the found
  identifier plus one.  The result depends on the store only, not on the order in
  which the xattrs were created.
\<close>

theorem listxattr_each_name_once:
  assumes lim: "limits_ok P" and wf: "wf_store P (i_ino s) (items s)"
    and env: "\<not> kmalloc_fails E" "lock_inode_ret E = None"
    and fits: "length (names_buffer (stored_names (i_ino s) (items s))) \<le> sz"
    and st: "xattr_stored P (items s) (i_ino s) xid name val"
      "length name \<le> SCOUTFS_XATTR_MAX_NAME_LEN P" "length val \<le> SCOUTFS_XATTR_MAX_VAL_LEN P"
  shows "scoutfs_listxattr P E s buffer sz =
           Some ((Inr (length (names_buffer (stored_names (i_ino s) (items s)))),
                  names_buffer (stored_names (i_ino s) (items s))
                    @ drop (length (names_buffer (stored_names (i_ino s) (items s)))) buffer),
                 log_events [EvLockInode DLM_LOCK_PR, EvUnlock DLM_LOCK_PR] s) \<and>
         scoutfs_listxattr P E s buffer 0 =
           Some ((Inr (length (names_buffer (stored_names (i_ino s) (items s)))), buffer),
                 log_events [EvLockInode DLM_LOCK_PR, EvUnlock DLM_LOCK_PR] s) \<and>
         distinct (stored_names (i_ino s) (items s)) \<and>
         name \<in> set (stored_names (i_ino s) (items s))"
proof -
  let ?ns = "stored_names (i_ino s) (items s)"
  have pos: "0 < length (names_buffer ?ns)"
    using stored_names_member[OF lim st] by (cases ?ns) (auto simp: names_buffer_def)
  then have sz0: "sz \<noteq> 0" using fits by linarith
  have a: "listxattr_loop P (items s) (i_ino s) (sizeof_xattr + SCOUTFS_XATTR_MAX_NAME_LEN P)
             sz 0 0 0 [] = Some (Inr (length (names_buffer ?ns)), names_buffer ?ns)"
    using listxattr_loop_wf[OF wf lim refl, of sz 0 0 0 "[]"] fits sz0
    by (simp add: rest_names_all[unfolded init_xattr_key_def])
  have b: "listxattr_loop P (items s) (i_ino s) (sizeof_xattr + SCOUTFS_XATTR_MAX_NAME_LEN P)
             0 0 0 0 [] = Some (Inr (length (names_buffer ?ns)), [])"
    using listxattr_loop_wf[OF wf lim refl, of 0 0 0 0 "[]"]
    by (simp add: rest_names_all[unfolded init_xattr_key_def])
  show ?thesis
    using a b env stored_names_distinct[OF wf] stored_names_member[OF lim st]
    by (simp add: scoutfs_listxattr_def Let_def)
qed

theorem listxattr_each_name_once_witness:
  "scoutfs_listxattr P_ex E_ok s_ex ''................'' 14 =
     Some ((Inr 14, ''user.b'' @ [CHR 0x00] @ ''user.a'' @ [CHR 0x00] @ ''..''),
           s_ex\<lparr>trace := [EvLockInode DLM_LOCK_PR, EvUnlock DLM_LOCK_PR]\<rparr>) \<and>
   scoutfs_listxattr P_ex E_ok s_ex ''................'' 0 =
     Some ((Inr 14, ''................''),
           s_ex\<lparr>trace := [EvLockInode DLM_LOCK_PR, EvUnlock DLM_LOCK_PR]\<rparr>) \<and>
   stored_names 7 (items s_ex) = [''user.b'', ''user.a'']"
proof -
  have ns: "stored_names (i_ino s_ex) (items s_ex) = [''user.b'', ''user.a'']"
    by (simp add: stored_names_def ex_defs)
  have fits: "length (names_buffer (stored_names (i_ino s_ex) (items s_ex))) \<le> 14"
    by (simp add: ns names_buffer_def)
  have n: "length ''user.a'' \<le> SCOUTFS_XATTR_MAX_NAME_LEN P_ex"
    "length ''0123456789abcdefghijklmnopqrstuvwxyz'' \<le> SCOUTFS_XATTR_MAX_VAL_LEN P_ex"
    by (simp_all add: ex_defs)
  from listxattr_each_name_once [OF ex_limits_ok ex_wf_store ex_env_ok fits ex_stored_a n,
      of "''................''"] ns
  show ?thesis by (simp add: log_events_def s_ex_def names_buffer_def)
qed

section \<open>Rolling back a failed set\<close>

subsection \<open>The store as a map\<close>

lemma map_of_item_remove: "map_of (item_remove k its) = (map_of its)(k := None)"
  by (induction its) (auto simp: item_remove_def fun_eq_iff)

lemma map_of_insort_key:
  "k \<notin> fst ` set xs \<Longrightarrow> map_of (insort_key fst (k, v) xs) = (map_of xs)(k \<mapsto> v)"
  by (induction xs) (auto simp: fun_eq_iff)

lemma map_of_item_insert: "map_of (item_insert (k, v) its) = (map_of its)(k \<mapsto> v)"
proof -
  have "k \<notin> fst ` set (item_remove k its)" by (auto simp: item_remove_def)
  from map_of_insort_key[OF this] show ?thesis
    by (simp add: item_insert_def map_of_item_remove)
qed

lemma sorted_item_insert: "sorted (map fst its) \<Longrightarrow> sorted (map fst (item_insert kv its))"
  by (simp add: item_insert_def sorted_insort_key sorted_item_remove)

lemma distinct_insort_key_fst:
  "fst kv \<notin> fst ` set xs \<Longrightarrow> distinct (map fst xs) \<Longrightarrow> distinct (map fst (insort_key fst kv xs))"
  by (induction xs) (auto simp: set_insort_key)

lemma distinct_item_insert: "distinct (map fst its) \<Longrightarrow> distinct (map fst (item_insert kv its))"
proof -
  assume d: "distinct (map fst its)"
  have "fst kv \<notin> fst ` set (item_remove (fst kv) its)" by (auto simp: item_remove_def)
  from distinct_insort_key_fst[OF this distinct_item_remove[OF d]] show ?thesis
    by (simp add: item_insert_def)
qed

lemma store_eqI:
  assumes "sorted (map fst xs)" "distinct (map fst xs)" "sorted (map fst ys)" "distinct (map fst ys)"
    and "map_of xs = map_of (ys :: store)"
  shows "xs = ys"
proof -
  have s: "set xs = set ys"
  proof -
    have "(k, v) \<in> set xs \<longleftrightarrow> (k, v) \<in> set ys" for k v
      using assms(2,4,5) by (metis map_of_eq_Some_iff)
    then show ?thesis by auto
  qed
  have "inj_on fst (set xs \<union> set ys)" using assms(2) s by (simp add: distinct_map)
  from map_sorted_distinct_set_unique[OF this assms(1,2,3,4) s] show ?thesis .
qed


subsection \<open>The loops that create and delete the items\<close>

lemma map_of_create_undo:
  "map_of (create_xattr_undo its key p) =
     (\<lambda>k. if \<exists>q<p. k = set_part key q then None else map_of its k)"
proof (induction p arbitrary: its)
  case 0
  then show ?case by simp
next
  case (Suc p)
  show ?case
    by (auto simp: Suc scoutfs_item_delete_dirty_def map_of_item_remove fun_eq_iff less_Suc_eq)
qed

lemma sorted_create_undo:
  "sorted (map fst its) \<Longrightarrow> sorted (map fst (create_xattr_undo its key p))"
  by (induction p arbitrary: its) (simp_all add: scoutfs_item_delete_dirty_def sorted_item_remove)

lemma distinct_create_undo:
  "distinct (map fst its) \<Longrightarrow> distinct (map fst (create_xattr_undo its key p))"
  by (induction p arbitrary: its) (simp_all add: scoutfs_item_delete_dirty_def distinct_item_remove)

lemma item_create_cases:
  assumes "scoutfs_item_create fault its key val = (r, its')"
  shows "(r \<noteq> None \<and> its' = its) \<or>
         (r = None \<and> map_of its key = None \<and> fault key = None \<and> its' = item_insert (key, val) its)"
  using assms by (auto simp: scoutfs_item_create_def split: option.splits if_splits)

lemma create_loop_step:
  assumes "tot < bytes" "0 < SCOUTFS_XATTR_MAX_PART_SIZE P"
    and "scoutfs_item_create fault its key
           (take (min (bytes - tot) (SCOUTFS_XATTR_MAX_PART_SIZE P)) (drop tot xat)) = (r, its1)"
  shows "create_xattr_loop P fault its key xat bytes tot =
           (case r of
              Some e \<Rightarrow> (Some e, create_xattr_undo its1 key (skx_part key))
            | None \<Rightarrow> create_xattr_loop P fault its1 (set_part key ((skx_part key + 1) mod 256))
                        xat bytes (tot + min (bytes - tot) (SCOUTFS_XATTR_MAX_PART_SIZE P)))"
  using assms by (subst create_xattr_loop.simps) (simp add: Let_def split: option.splits)

lemma create_loop_done:
  assumes "\<not> (tot < bytes \<and> 0 < SCOUTFS_XATTR_MAX_PART_SIZE P)"
  shows "create_xattr_loop P fault its key xat bytes tot = (None, its)"
  by (subst create_xattr_loop.simps) (simp only: assms if_False)

lemma create_loop_sorted:
  "sorted (map fst its) \<Longrightarrow> distinct (map fst its) \<Longrightarrow>
   sorted (map fst (snd (create_xattr_loop P fault its key xat bytes tot))) \<and>
   distinct (map fst (snd (create_xattr_loop P fault its key xat bytes tot)))"
proof (induction P fault its key xat bytes tot rule: create_xattr_loop.induct)
  case (1 P fault its key xat bytes tot)
  show ?case
  proof (cases "tot < bytes \<and> 0 < SCOUTFS_XATTR_MAX_PART_SIZE P")
    case False
    show ?thesis unfolding create_loop_done[OF False] using 1(2,3) by simp
  next
    case True
    define pb where "pb = min (bytes - tot) (SCOUTFS_XATTR_MAX_PART_SIZE P)"
    obtain r its1 where c: "scoutfs_item_create fault its key (take pb (drop tot xat)) = (r, its1)"
      by (cases "scoutfs_item_create fault its key (take pb (drop tot xat))") auto
    from item_create_cases[OF c] have s1: "sorted (map fst its1)" "distinct (map fst its1)"
      using 1(2,3) by (auto simp: sorted_item_insert distinct_item_insert)
    note step = create_loop_step[OF conjunct1[OF True] conjunct2[OF True] c[unfolded pb_def]]
    show ?thesis
    proof (cases r)
      case None
      from 1(1)[OF True pb_def c[symmetric] None s1]
      show ?thesis unfolding step None by (simp add: pb_def)
    next
      case (Some e)
      show ?thesis unfolding step Some using s1
        by (simp add: sorted_create_undo distinct_create_undo)
    qed
  qed
qed

lemma create_loop_fail:
  assumes "create_xattr_loop P fault its key xat bytes tot = (Some e, its')"
    and "tot = skx_part key * SCOUTFS_XATTR_MAX_PART_SIZE P"
    and "bytes \<le> 256 * SCOUTFS_XATTR_MAX_PART_SIZE P"
  shows "map_of its' = (\<lambda>k. if \<exists>q<skx_part key. k = set_part key q then None else map_of its k)"
  using assms
proof (induction P fault its key xat bytes tot rule: create_xattr_loop.induct)
  case (1 P fault its key xat bytes tot)
  let ?ps = "SCOUTFS_XATTR_MAX_PART_SIZE P"
  show ?case
  proof (cases "tot < bytes \<and> 0 < ?ps")
    case False
    from 1(2) show ?thesis unfolding create_loop_done[OF False] by simp
  next
    case True
    define pb where "pb = min (bytes - tot) ?ps"
    obtain r its1 where c: "scoutfs_item_create fault its key (take pb (drop tot xat)) = (r, its1)"
      by (cases "scoutfs_item_create fault its key (take pb (drop tot xat))") auto
    note step = create_loop_step[OF conjunct1[OF True] conjunct2[OF True] c[unfolded pb_def]]
    obtain i h d p where key: "key = (i, h, d, p)" by (cases key) auto
    have p: "p < 256" using True 1(3,4) unfolding key
      by (metis mult_less_cancel2 order_less_le_trans skx_part.simps)
    show ?thesis
    proof (cases r)
      case (Some e')
      with item_create_cases[OF c] have "its1 = its" by auto
      with 1(2) have "its' = create_xattr_undo its key (skx_part key)"
        unfolding step Some by simp
      then show ?thesis by (simp add: map_of_create_undo)
    next
      case None
      with item_create_cases[OF c] have free: "map_of its key = None"
        and its1: "its1 = item_insert (key, take pb (drop tot xat)) its" by auto
      from 1(2)
      have rec: "create_xattr_loop P fault its1 (set_part key ((skx_part key + 1) mod 256)) xat bytes
                   (tot + pb) = (Some e, its')"
        unfolding step None by (simp add: pb_def)
      show ?thesis
      proof (cases "tot + pb < bytes")
        case False
        then have nm: "\<not> (tot + pb < bytes \<and> 0 < ?ps)" by simp
        from rec show ?thesis unfolding create_loop_done[OF nm] by simp
      next
        case more: True
        then have pb: "pb = ?ps" by (auto simp: pb_def min_def)
        have "tot + pb = Suc p * ?ps" using 1(3) by (simp add: pb key)
        then have "Suc p * ?ps < 256 * ?ps" using more 1(4) by linarith
        then have p1: "Suc p < 256" by (rule mult_less_cancel2[THEN iffD1, THEN conjunct2])
        have t': "tot + pb = skx_part (set_part key ((skx_part key + 1) mod 256)) * ?ps"
          using p1 1(3) by (simp add: key pb)
        from 1(1)[OF True pb_def c[symmetric] None rec t' 1(4)]
        show ?thesis using p1 free
          by (auto simp: key its1 map_of_item_insert fun_eq_iff less_Suc_eq)
      qed
    qed
  qed
qed


lemma restore_cong:
  "map_of a = map_of b \<Longrightarrow> map_of (fold item_insert saved a) = map_of (fold item_insert saved b)"
proof (induction saved arbitrary: a b)
  case Nil
  then show ?case by simp
next
  case (Cons x saved)
  have "map_of (item_insert x a) = map_of (item_insert x b)"
    using Cons.prems by (cases x) (simp add: map_of_item_insert)
  from Cons.IH[OF this] show ?case by simp
qed

lemma sorted_restore:
  "sorted (map fst its) \<Longrightarrow> sorted (map fst (fold item_insert saved its))"
  by (induction saved arbitrary: its) (simp_all add: sorted_item_insert)

lemma distinct_restore:
  "distinct (map fst its) \<Longrightarrow> distinct (map fst (fold item_insert saved its))"
  by (induction saved arbitrary: its) (simp_all add: distinct_item_insert)

lemma delete_save_cases:
  assumes "scoutfs_item_delete_save its key saved = (r, its', saved')"
  shows "(r = Some ENOENT \<and> its' = its \<and> saved' = saved \<and> map_of its key = None) \<or>
         (\<exists>v. r = None \<and> map_of its key = Some v \<and> its' = item_remove key its \<and>
               saved' = (key, v) # saved)"
  using assms by (auto simp: scoutfs_item_delete_save_def split: option.splits)

lemma delete_loop_step:
  assumes "scoutfs_item_delete_save its key saved = (r, its1, saved1)"
  shows "delete_xattr_loop its key nr_parts saved =
           (case r of
              Some e \<Rightarrow> (Some e, its1, saved1)
            | None \<Rightarrow>
                if (skx_part key + 1) mod 256 < nr_parts
                then delete_xattr_loop its1 (set_part key ((skx_part key + 1) mod 256)) nr_parts saved1
                else (None, its1, saved1))"
  using assms by (subst delete_xattr_loop.simps) (simp add: Let_def split: option.splits)

lemma delete_loop_restore:
  assumes "delete_xattr_loop its key nr_parts saved = (r, its', saved')"
    and "sorted (map fst its)" "distinct (map fst its)"
  shows "map_of (fold item_insert saved' its') = map_of (fold item_insert saved its) \<and>
         sorted (map fst its') \<and> distinct (map fst its')"
  using assms
proof (induction its key nr_parts saved rule: delete_xattr_loop.induct)
  case (1 its key nr_parts saved)
  obtain r1 its1 saved1 where d: "scoutfs_item_delete_save its key saved = (r1, its1, saved1)"
    by (cases "scoutfs_item_delete_save its key saved") auto
  note step = delete_loop_step[OF d, of nr_parts]
  from delete_save_cases[OF d] show ?case
  proof (elim disjE conjE exE)
    assume "r1 = Some ENOENT" "its1 = its" "saved1 = saved"
    with 1(2) show ?thesis unfolding step using 1(3,4) by auto
  next
    fix v
    assume r1: "r1 = None" and v: "map_of its key = Some v" and its1: "its1 = item_remove key its"
      and saved1: "saved1 = (key, v) # saved"
    have "map_of (item_insert (key, v) its1) = map_of its"
      using v by (auto simp: its1 map_of_item_insert map_of_item_remove fun_eq_iff)
    from restore_cong[OF this]
    have one: "map_of (fold item_insert saved1 its1) = map_of (fold item_insert saved its)"
      by (simp add: saved1)
    have s1: "sorted (map fst its1)" "distinct (map fst its1)"
      using 1(3,4) by (simp_all add: its1 sorted_item_remove distinct_item_remove)
    show ?thesis
    proof (cases "(skx_part key + 1) mod 256 < nr_parts")
      case True
      from 1(2) have rec: "delete_xattr_loop its1 (set_part key ((skx_part key + 1) mod 256))
                             nr_parts saved1 = (r, its', saved')"
        unfolding step r1 using True by simp
      from 1(1)[OF d[symmetric] r1 refl refl True rec s1] one show ?thesis by simp
    next
      case False
      with 1(2) have "its' = its1" "saved' = saved1" unfolding step r1 by simp_all
      then show ?thesis using one s1 by simp
    qed
  qed
qed

lemma xattr_set_items_error:
  assumes "xattr_set_items P fault its ino key found_parts has_value xid xat bytes = (Some e, its')"
    and "sorted (map fst its)" "distinct (map fst its)"
    and "has_value \<longrightarrow> bytes \<le> 256 * SCOUTFS_XATTR_MAX_PART_SIZE P"
  shows "its' = its"
proof -
  obtain r1 its1 saved where del:
    "(if found_parts \<noteq> 0
      then delete_xattr_items its ino (skx_name_hash key) (skx_id key) found_parts []
      else (None, its, [])) = (r1, its1, saved)"
    by (metis prod_cases3)
  have d: "map_of (fold item_insert saved its1) = map_of its \<and>
           sorted (map fst its1) \<and> distinct (map fst its1)"
  proof (cases "found_parts \<noteq> 0")
    case True
    with del have "delete_xattr_loop its (init_xattr_key ino (skx_name_hash key) (skx_id key))
                     (found_parts mod 256) [] = (r1, its1, saved)"
      by (simp add: delete_xattr_items_def)
    from delete_loop_restore[OF this assms(2,3)] show ?thesis by simp
  next
    case False
    with del assms(2,3) show ?thesis by auto
  qed
  obtain r2 its2 where cr:
    "(if has_value \<and> r1 = None then create_xattr_items P fault its1 ino xid xat bytes
      else (r1, its1)) = (r2, its2)"
    by (metis surj_pair)
  from assms(1) have "(if r2 \<noteq> None then (r2, scoutfs_item_restore its2 saved) else (None, its2))
                        = (Some e, its')"
    unfolding xattr_set_items_def del by (simp add: cr Let_def)
  then have r2: "r2 = Some e" and its': "its' = fold item_insert saved its2"
    by (auto simp: scoutfs_item_restore_def split: if_splits)
  have c: "map_of its2 = map_of its1 \<and> sorted (map fst its2) \<and> distinct (map fst its2)"
  proof (cases "has_value \<and> r1 = None")
    case True
    let ?k = "init_xattr_key ino (xattr_name_hash P (take (xat_name_len xat) (xat_name xat))) xid"
    from cr True have l: "create_xattr_loop P fault its1 ?k xat bytes 0 = (Some e, its2)"
      by (simp add: create_xattr_items_def r2)
    have "0 = skx_part ?k * SCOUTFS_XATTR_MAX_PART_SIZE P" by (simp add: init_xattr_key_def)
    from create_loop_fail[OF l this] assms(4) True
    have "map_of its2 = map_of its1" by (simp add: init_xattr_key_def)
    moreover from create_loop_sorted[of its1 P fault ?k xat bytes 0] d
    have "sorted (map fst its2) \<and> distinct (map fst its2)" unfolding l by simp
    ultimately show ?thesis by simp
  next
    case False
    with cr d show ?thesis by auto
  qed
  have "map_of its' = map_of its"
    unfolding its' using restore_cong[of its2 its1 saved] c d by simp
  moreover have "sorted (map fst its')" "distinct (map fst its')"
    unfolding its' using c by (simp_all add: sorted_restore distinct_restore)
  ultimately show ?thesis using assms(2,3) by (intro store_eqI)
qed


subsection \<open>An error of the set function leaves the items as they were\<close>

lemma set_bytes_bound:
  assumes "limits_ok P" "length name \<le> SCOUTFS_XATTR_MAX_NAME_LEN P"
    "sz \<le> SCOUTFS_XATTR_MAX_VAL_LEN P"
  shows "(sizeof_xattr + length name + sz) mod 2 ^ 32 = sizeof_xattr + length name + sz"
    and "sizeof_xattr + length name + sz \<le> 255 * SCOUTFS_XATTR_MAX_PART_SIZE P"
proof -
  have ps: "0 < SCOUTFS_XATTR_MAX_PART_SIZE P"
    using assms(1) by (simp add: limits_ok_def sizeof_xattr_def)
  show "(sizeof_xattr + length name + sz) mod 2 ^ 32 = sizeof_xattr + length name + sz"
    using assms by (simp add: limits_ok_def sizeof_xattr_def)
  from nr_parts_bound(2)[OF assms] nr_parts_less_iff[OF ps, of 255 "length name" sz]
  show "sizeof_xattr + length name + sz \<le> 255 * SCOUTFS_XATTR_MAX_PART_SIZE P"
    by simp
qed

lemma xattr_set_error_items:
  assumes "limits_ok P"
    and "sorted (map fst (items s))" "distinct (map fst (items s))"
    and "scoutfs_xattr_set P E s name val sz flags = Some (Some e, s')"
  shows "items s' = items s \<and> i_ino s' = i_ino s \<and> i_version s' = i_version s"
proof -
  have big: "(sizeof_xattr + length name + sz) mod 2 ^ 32 \<le> 256 * SCOUTFS_XATTR_MAX_PART_SIZE P"
    if "length name \<le> SCOUTFS_XATTR_MAX_NAME_LEN P" "sz \<le> SCOUTFS_XATTR_MAX_VAL_LEN P"
    using set_bytes_bound[OF assms(1) that] by simp
  have err: "its' = items s"
    if "xattr_set_items P fault (items s) ino key found_parts hv xid xat b = (Some e', its')"
      "hv \<longrightarrow> b \<le> 256 * SCOUTFS_XATTR_MAX_PART_SIZE P"
    for fault ino key found_parts xid xat e' its' hv b
    using xattr_set_items_error[OF that(1) assms(2,3) that(2)] .
  from assms(4) show ?thesis
    unfolding scoutfs_xattr_set_def Let_def
    apply (auto split: if_splits option.splits hold_res.splits prod.splits simp: log_events_def)
    apply (drule err; use big in simp)+
    done
qed

text \<open>
  So an error of \<open>scoutfs_xattr_set\<close>, whatever its cause, leaves the items and the inode
  version as they were.
\<close>

subsection \<open>The first part of a stored xattr, and reading it back\<close>

lemma stored_name_take:
  assumes "sizeof_xattr + xat_name_len v \<le> n"
  shows "stored_name (take n v) = stored_name v"
proof -
  have "sizeof_xattr \<le> n" using assms by simp
  from hdr_take(1)[OF this, of v] assms show ?thesis
    by (simp add: stored_name_def xat_name_def drop_take min_def)
qed

lemma first_chunk_ok:
  assumes lim: "limits_ok P"
    and nlen: "length name \<le> SCOUTFS_XATTR_MAX_NAME_LEN P"
    and vlen: "length v \<le> SCOUTFS_XATTR_MAX_VAL_LEN P"
  shows "xid < U64_MAX \<Longrightarrow> first_part_ok P (ino, xattr_name_hash P name, xid, q)
           (take (SCOUTFS_XATTR_MAX_PART_SIZE P) (xattr_bytes name v (length v)))"
    and "xattr_nr_parts P (take (SCOUTFS_XATTR_MAX_PART_SIZE P) (xattr_bytes name v (length v)))
           = SCOUTFS_XATTR_NR_PARTS P (length name) (length v)"
    and "stored_name (take (SCOUTFS_XATTR_MAX_PART_SIZE P) (xattr_bytes name v (length v))) = name"
proof -
  let ?ps = "SCOUTFS_XATTR_MAX_PART_SIZE P"
  let ?xb = "xattr_bytes name v (length v)"
  have n255: "length name \<le> 255" and v65535: "length v \<le> 65535"
    using lim nlen vlen by (auto simp: limits_ok_def)
  have ps: "sizeof_xattr + length name \<le> ?ps" using lim nlen by (simp add: limits_ok_def)
  then have ps3: "sizeof_xattr \<le> ?ps" by simp
  note hdr = xattr_bytes_header[OF n255 v65535, of v]
  have nl: "xat_name_len (take ?ps ?xb) = length name" and vl: "xat_val_len (take ?ps ?xb) = length v"
    by (simp_all add: hdr_take[OF ps3] hdr)
  show sn: "stored_name (take ?ps ?xb) = name"
    using stored_name_take[of ?xb ?ps] ps by (simp add: hdr)
  have len: "sizeof_xattr + length name \<le> length (take ?ps ?xb)"
    using ps by (simp add: xattr_bytes_length)
  show "xid < U64_MAX \<Longrightarrow> first_part_ok P (ino, xattr_name_hash P name, xid, q) (take ?ps ?xb)"
    unfolding first_part_ok_def nl vl sn using nlen vlen len by simp
  show "xattr_nr_parts P (take ?ps ?xb) = SCOUTFS_XATTR_NR_PARTS P (length name) (length v)"
    by (simp add: xattr_nr_parts_def nl vl)
qed

lemma getxattr_stored:
  assumes lim: "limits_ok P" and wf: "wf_store P (i_ino s) (items s)"
    and st: "xattr_stored P (items s) (i_ino s) t name val"
    and name: "\<not> unknown_prefix name" "length name \<le> SCOUTFS_XATTR_MAX_NAME_LEN P"
    and vlen: "length val \<le> SCOUTFS_XATTR_MAX_VAL_LEN P"
    and env: "\<not> kmalloc_fails E" "lock_inode_ret E = None"
    and n: "length val \<le> n" "sizeof_xattr + length name + n < 2 ^ 32"
  shows "scoutfs_getxattr P E s name buffer n =
           Some ((Inr (length val), val @ drop (length val) buffer),
                 log_events [EvLockInode DLM_LOCK_PR, EvUnlock DLM_LOCK_PR] s)"
proof -
  let ?enc = "xattr_bytes name val (length val)"
  have ne: "name \<noteq> []" by (rule known_prefix_nonempty[OF name(1)])
  have n255: "length name \<le> 255" and v65535: "length val \<le> 65535"
    using lim name(2) vlen by (auto simp: limits_ok_def)
  note hdr = xattr_bytes_header[OF n255 v65535, of val]
  have small: "(sizeof_xattr + length name + n) mod 2 ^ 32 = sizeof_xattr + length name + n"
    using n(2) by simp
  have len: "length ?enc = sizeof_xattr + length name + length val"
    by (simp add: xattr_bytes_length)
  have all: "take (sizeof_xattr + length name + n) ?enc = ?enc" using n(1) len by simp
  have mn: "min (sizeof_xattr + length name + n) (sizeof_xattr + length name + length val)
            = sizeof_xattr + length name + length val" using n(1) by simp
  from get_next_xattr_full[OF wf lim st ne name(2) vlen, of "sizeof_xattr + length name + n" 0]
  obtain q where g: "get_next_xattr P (items s) (i_ino s) (sizeof_xattr + length name + n) name 0 0 =
     Some (Inr (sizeof_xattr + length name + length val),
           (i_ino s, xattr_name_hash P name, t, q), ?enc)"
    unfolding all mn by auto
  have val: "take (length val) (drop (length name) (xat_name ?enc)) = val"
    by (simp add: xat_name_def xattr_bytes_def sizeof_xattr_def)
  have full: "xattr_full_bytes ?enc = sizeof_xattr + length name + length val"
    by (simp add: xattr_full_bytes_def hdr)
  show ?thesis
  proof (cases "n = 0")
    case True
    with n(1) have "val = []" by simp
    then show ?thesis using g name env small hdr(2) True
      by (simp add: scoutfs_getxattr_def Let_def)
  next
    case False
    then show ?thesis using g name env small hdr n(1) val full
      by (simp add: scoutfs_getxattr_def Let_def)
  qed
qed

lemma delete_loop_present:
  assumes "\<forall>q\<ge>skx_part key. q < nr_parts \<longrightarrow> map_of its (set_part key q) \<noteq> None"
    and "skx_part key < nr_parts" "nr_parts \<le> 255"
  shows "\<exists>its' saved'. delete_xattr_loop its key nr_parts saved = (None, its', saved')"
  using assms
proof (induction its key nr_parts saved rule: delete_xattr_loop.induct)
  case (1 its key nr_parts saved)
  obtain i h d p where key: "key = (i, h, d, p)" by (cases key) auto
  have p: "p < nr_parts" using 1(3) by (simp add: key)
  then have p1: "(skx_part key + 1) mod 256 = Suc p" using 1(4) by (simp add: key)
  obtain r1 its1 saved1 where d: "scoutfs_item_delete_save its key saved = (r1, its1, saved1)"
    by (cases "scoutfs_item_delete_save its key saved") auto
  note step = delete_loop_step[OF d, of nr_parts]
  have "map_of its key \<noteq> None" using 1(2) p by (auto simp: key)
  with delete_save_cases[OF d] have r1: "r1 = None" and its1: "its1 = item_remove key its" by auto
  show ?case
  proof (cases "Suc p < nr_parts")
    case True
    have a: "\<forall>q\<ge>skx_part (set_part key ((skx_part key + 1) mod 256)). q < nr_parts \<longrightarrow>
               map_of its1 (set_part (set_part key ((skx_part key + 1) mod 256)) q) \<noteq> None"
      unfolding p1 using 1(2) by (auto simp: key its1 map_of_item_remove)
    have b: "skx_part (set_part key ((skx_part key + 1) mod 256)) < nr_parts"
      unfolding p1 using True by (simp add: key)
    from 1(1)[OF d[symmetric] r1 refl refl _ a b 1(4)] True
    show ?thesis unfolding step r1 p1 by simp
  next
    case False
    then show ?thesis unfolding step r1 p1 by simp
  qed
qed

lemma create_items_fail:
  assumes "create_xattr_items P fault its1 ino xid xat bytes = (Some e, its2)"
    and "sorted (map fst its1)" "distinct (map fst its1)"
    and "bytes \<le> 256 * SCOUTFS_XATTR_MAX_PART_SIZE P"
  shows "its2 = its1"
proof -
  let ?k = "init_xattr_key ino (xattr_name_hash P (take (xat_name_len xat) (xat_name xat))) xid"
  from assms(1) have l: "create_xattr_loop P fault its1 ?k xat bytes 0 = (Some e, its2)"
    by (simp add: create_xattr_items_def)
  have "0 = skx_part ?k * SCOUTFS_XATTR_MAX_PART_SIZE P" by (simp add: init_xattr_key_def)
  from create_loop_fail[OF l this assms(4)]
  have "map_of its2 = map_of its1" by (simp add: init_xattr_key_def)
  moreover from create_loop_sorted[OF assms(2,3), of P fault ?k xat bytes 0]
  have "sorted (map fst its2)" "distinct (map fst its2)" unfolding l by simp_all
  ultimately show ?thesis using assms(2,3) by (intro store_eqI)
qed

subsection \<open>A creation that fails after the old items were saved\<close>

text \<open>
  When \<open>create_xattr_items\<close> returns an error after \<open>delete_xattr_items\<close> has saved the old
  items, the created parts are gone, the saved items are restored, and the error is
  returned with the items as they were.
\<close>

lemma create_failure_restores:
  assumes lim: "limits_ok P" and wf: "wf_store P (i_ino s) (items s)"
    and old: "xattr_stored P (items s) (i_ino s) t name old"
    and name: "\<not> unknown_prefix name" "length name \<le> SCOUTFS_XATTR_MAX_NAME_LEN P"
    and olen: "length old \<le> SCOUTFS_XATTR_MAX_VAL_LEN P"
    and new: "length v = sz" "sz \<le> SCOUTFS_XATTR_MAX_VAL_LEN P"
    and flags: "flags = 0 \<or> flags = XATTR_REPLACE"
    and env: "\<not> kmalloc_fails E" "lock_inode_ret E = None"
      "index_hold_retry (index_hold_ret E) 0 = Some HoldOk" "dirty_inode_ret E = None"
    and del: "delete_xattr_items (items s) (i_ino s) (xattr_name_hash P name) t
                (SCOUTFS_XATTR_NR_PARTS P (length name) (length old)) [] = (r, its1, saved)"
    and fail: "create_xattr_items P (create_fault E) its1 (i_ino s) (next_xattr_id s)
                 (xattr_bytes name v sz) (sizeof_xattr + length name + sz) = (Some e, its2)"
    and n: "length old \<le> n" "sizeof_xattr + length name + n < 2 ^ 32"
  shows "r = None \<and> its2 = its1 \<and> scoutfs_item_restore its2 saved = items s \<and>
         scoutfs_xattr_set P E s name (Some v) sz flags =
           Some (Some e,
                 log_events [EvLockInode DLM_LOCK_EX, EvHoldTrans, EvReleaseTrans,
                             EvUnlock DLM_LOCK_EX]
                   (s\<lparr>next_xattr_id := (next_xattr_id s + 1) mod 2 ^ 64\<rparr>)) \<and>
         scoutfs_getxattr P E
             (log_events [EvLockInode DLM_LOCK_EX, EvHoldTrans, EvReleaseTrans,
                          EvUnlock DLM_LOCK_EX]
                (s\<lparr>next_xattr_id := (next_xattr_id s + 1) mod 2 ^ 64\<rparr>)) name buffer n =
           Some ((Inr (length old), old @ drop (length old) buffer),
                 log_events [EvLockInode DLM_LOCK_EX, EvHoldTrans, EvReleaseTrans,
                             EvUnlock DLM_LOCK_EX, EvLockInode DLM_LOCK_PR, EvUnlock DLM_LOCK_PR]
                   (s\<lparr>next_xattr_id := (next_xattr_id s + 1) mod 2 ^ 64\<rparr>))"
proof -
  let ?ino = "i_ino s" and ?its = "items s"
  let ?H = "xattr_name_hash P name"
  let ?ps = "SCOUTFS_XATTR_MAX_PART_SIZE P"
  let ?enc = "xattr_bytes name old (length old)"
  let ?N = "SCOUTFS_XATTR_NR_PARTS P (length name) (length old)"
  let ?hl = "sizeof_xattr + length name"
  let ?s' = "log_events [EvLockInode DLM_LOCK_EX, EvHoldTrans, EvReleaseTrans, EvUnlock DLM_LOCK_EX]
                (s\<lparr>next_xattr_id := (next_xattr_id s + 1) mod 2 ^ 64\<rparr>)"
  have ne: "name \<noteq> []" by (rule known_prefix_nonempty[OF name(1)])
  have so: "sorted (map fst ?its)" "distinct (map fst ?its)" by (rule wf_storeD[OF wf])+
  have N: "0 < ?N" "?N \<le> 255" by (rule nr_parts_bound[OF lim name(2) olen])+
  have parts: "map_of ?its (?ino, ?H, t, q) \<noteq> None" if "q < ?N" for q
    using old that by (simp add: xattr_stored_def parts_stored_def)
  from old N(1) have "map_of ?its (?ino, ?H, t, 0) = Some (take ?ps ?enc)"
    by (simp add: xattr_stored_def parts_stored_def)
  then have in0: "((?ino, ?H, t, 0), take ?ps ?enc) \<in> set ?its" by (rule map_of_SomeD)
  note chunk = first_chunk_ok(2,3)[OF lim name(2) olen]
  from get_next_xattr_header[OF wf ne in0 chunk(2), of 0]
  have scan: "get_next_xattr P ?its ?ino ?hl name 0 0 =
                Some (Inr ?hl, (?ino, ?H, t, 0), take ?hl (take ?ps ?enc))" .
  have "sizeof_xattr \<le> ?hl" by simp
  from hdr_take[OF this, of "take ?ps ?enc"] chunk(1)
  have fp: "xattr_nr_parts P (take ?hl (take ?ps ?enc)) = ?N" by (simp add: xattr_nr_parts_def)
  \<comment> \<open>the old items are deleted and saved\<close>
  from del have dl: "delete_xattr_loop ?its (?ino, ?H, t, 0) ?N [] = (r, its1, saved)"
    using N(2) by (simp add: delete_xattr_items_def init_xattr_key_def)
  have "\<forall>q\<ge>skx_part (?ino, ?H, t, 0::nat). q < ?N \<longrightarrow>
          map_of ?its (set_part (?ino, ?H, t, 0) q) \<noteq> None"
    using parts by simp
  from delete_loop_present[OF this _ N(2), of "[]"] N(1) dl
  have r: "r = None" by auto
  from delete_loop_restore[OF dl so]
  have rb: "map_of (fold item_insert saved its1) = map_of ?its"
    and s1: "sorted (map fst its1)" "distinct (map fst its1)" by simp_all
  \<comment> \<open>the parts that were created are deleted again\<close>
  note bytes = set_bytes_bound[OF lim name(2) new(2)]
  have big: "?hl + sz \<le> 256 * ?ps" using bytes(2) by simp
  from create_items_fail[OF fail s1 big] have its2: "its2 = its1" .
  \<comment> \<open>the saved items are restored\<close>
  have restore: "scoutfs_item_restore its2 saved = ?its"
    unfolding scoutfs_item_restore_def its2
    using rb s1 so by (intro store_eqI sorted_restore distinct_restore)
  have items: "xattr_set_items P (create_fault E) ?its ?ino (?ino, ?H, t, 0) ?N True
                 (next_xattr_id s) (xattr_bytes name v sz) (?hl + sz) = (Some e, ?its)"
    using N(1) del fail restore by (simp add: xattr_set_items_def r)
  have small: "?hl mod 2 ^ 32 = ?hl"
    using lim name(2) by (simp add: limits_ok_def sizeof_xattr_def)
  have Nm: "?N mod 256 = ?N" using N(2) by simp
  have set: "scoutfs_xattr_set P E s name (Some v) sz flags = Some (Some e, ?s')"
    using flags
  proof
    assume "flags = 0"
    then show ?thesis
      using name new(2) env scan items small bytes(1) fp Nm
      by (simp add: scoutfs_xattr_set_def Let_def log_events_def XATTR_CREATE_def
          XATTR_REPLACE_def)
  next
    assume "flags = XATTR_REPLACE"
    then show ?thesis
      using name new(2) env scan items small bytes(1) fp Nm
      by (simp add: scoutfs_xattr_set_def Let_def log_events_def XATTR_CREATE_def
          XATTR_REPLACE_def)
  qed
  have wf': "wf_store P (i_ino ?s') (items ?s')" using wf by (simp add: log_events_def)
  have old': "xattr_stored P (items ?s') (i_ino ?s') t name old"
    using old by (simp add: log_events_def)
  from getxattr_stored[OF lim wf' old' name olen env(1,2) n, of buffer]
  have get: "scoutfs_getxattr P E ?s' name buffer n =
           Some ((Inr (length old), old @ drop (length old) buffer),
                 log_events [EvLockInode DLM_LOCK_PR, EvUnlock DLM_LOCK_PR] ?s')" .
  show ?thesis using r its2 restore set get by (simp add: log_events_def)
qed

text \<open>Every creation up to part \<open>p\<close> succeeds and the creation of part \<open>p\<close> is refused:
  then \<open>create_xattr_loop\<close> returns the error of that creation.\<close>

lemma create_loop_refused:
  assumes ps: "0 < SCOUTFS_XATTR_MAX_PART_SIZE P"
    and big: "bytes \<le> 256 * SCOUTFS_XATTR_MAX_PART_SIZE P"
    and p: "p * SCOUTFS_XATTR_MAX_PART_SIZE P < bytes"
    and refuse: "fault (i, h, d, p) = Some e \<or>
                 (fault (i, h, d, p) = None \<and> map_of its (i, h, d, p) \<noteq> None \<and> e = EEXIST)"
  shows "p0 \<le> p \<Longrightarrow> tot = p0 * SCOUTFS_XATTR_MAX_PART_SIZE P \<Longrightarrow>
         \<forall>q. p0 \<le> q \<and> q < p \<longrightarrow> fault (i, h, d, q) = None \<and> map_of its (i, h, d, q) = None \<Longrightarrow>
         \<exists>its2. create_xattr_loop P fault its (i, h, d, p0) xat bytes tot = (Some e, its2)"
  using refuse
proof (induction "p - p0" arbitrary: p0 tot its rule: less_induct)
  case less
  let ?ps = "SCOUTFS_XATTR_MAX_PART_SIZE P"
  have "p0 * ?ps \<le> p * ?ps" using less.prems(1) by (rule mult_le_mono1)
  with p less.prems(2) have run: "tot < bytes" by linarith
  define c where "c = take (min (bytes - tot) ?ps) (drop tot xat)"
  show ?case
  proof (cases "p0 = p")
    case True
    from less.prems(4) have "scoutfs_item_create fault its (i, h, d, p0) c = (Some e, its)"
      unfolding True by (auto simp: scoutfs_item_create_def)
    from create_loop_step[OF run ps this[unfolded c_def]] show ?thesis
      by (simp del: create_xattr_loop.simps)
  next
    case False
    then have lt: "p0 < p" using less.prems(1) by simp
    with less.prems(3) have "fault (i, h, d, p0) = None" "map_of its (i, h, d, p0) = None" by auto
    then have cr: "scoutfs_item_create fault its (i, h, d, p0) c
                     = (None, item_insert ((i, h, d, p0), c) its)"
      by (simp add: scoutfs_item_create_def)
    have "Suc p0 * ?ps \<le> p * ?ps" using lt by (intro mult_le_mono1) simp
    with p have more: "Suc p0 * ?ps < bytes" by linarith
    then have pb: "min (bytes - tot) ?ps = ?ps" using less.prems(2) by simp
    have "p * ?ps < 256 * ?ps" using p big by linarith
    then have "p < 256" by (rule mult_less_cancel2[THEN iffD1, THEN conjunct2])
    with lt have m: "(skx_part (i, h, d, p0) + 1) mod 256 = Suc p0" by simp
    let ?its' = "item_insert ((i, h, d, p0), c) its"
    have a: "\<forall>q. Suc p0 \<le> q \<and> q < p \<longrightarrow> fault (i, h, d, q) = None \<and> map_of ?its' (i, h, d, q) = None"
      using less.prems(3) by (auto simp: map_of_item_insert)
    have b: "fault (i, h, d, p) = Some e \<or>
             (fault (i, h, d, p) = None \<and> map_of ?its' (i, h, d, p) \<noteq> None \<and> e = EEXIST)"
      using less.prems(4) lt by (auto simp: map_of_item_insert)
    have "p - Suc p0 < p - p0" "Suc p0 \<le> p" using lt by simp_all
    from less.hyps[OF this _ a b, of "tot + ?ps"] less.prems(2)
    have "\<exists>its2. create_xattr_loop P fault ?its' (i, h, d, Suc p0) xat bytes (tot + ?ps)
                   = (Some e, its2)" by (simp del: create_xattr_loop.simps)
    with create_loop_step[OF run ps cr[unfolded c_def]] show ?thesis
      unfolding m pb by (simp del: create_xattr_loop.simps add: c_def pb)
  qed
qed

text \<open>
  Claim C2.  Let the store be well formed and hold the xattr \<open>name = old\<close>, and let
  \<open>scoutfs_xattr_set\<close> be called with a new value for that name, without \<open>XATTR_CREATE\<close>,
  in an environment where the allocation, the cluster lock, the index transaction and the
  dirtying of the inode succeed.  Let \<open>its1\<close> and \<open>saved\<close> be what \<open>delete_xattr_items\<close>
  leaves of the store and puts on the list.  Let part \<open>p\<close> of the new xattr be the first
  whose creation fails, with the error \<open>e\<close>: the item store creates the parts before it,
  and it refuses part \<open>p\<close> with \<open>e\<close>, or the key of part \<open>p\<close> exists and \<open>e\<close> is
  \<open>EEXIST\<close>.  Then
  \<^item> the deletion had succeeded, so the old items were all saved;
  \<^item> \<open>create_xattr_items\<close> returns \<open>-e\<close> and leaves \<open>its1\<close>: every new part that was
    created has been deleted again;
  \<^item> restoring the saved items gives the items before the call, entry by entry;
  \<^item> \<open>scoutfs_xattr_set\<close> returns \<open>-e\<close>, and the state after the call is the state before
    it but for the trace and the identifier drawn from \<open>next_xattr_id\<close>, which is not
    given back;
  \<^item> \<open>scoutfs_getxattr\<close> on that state with a buffer that holds the old value returns the
    old value and its length.
\<close>

theorem failed_creation_rolls_back:
  assumes lim: "limits_ok P" and wf: "wf_store P (i_ino s) (items s)"
    and old: "xattr_stored P (items s) (i_ino s) t name old"
    and name: "\<not> unknown_prefix name" "length name \<le> SCOUTFS_XATTR_MAX_NAME_LEN P"
    and olen: "length old \<le> SCOUTFS_XATTR_MAX_VAL_LEN P"
    and new: "length v = sz" "sz \<le> SCOUTFS_XATTR_MAX_VAL_LEN P"
    and flags: "flags = 0 \<or> flags = XATTR_REPLACE"
    and env: "\<not> kmalloc_fails E" "lock_inode_ret E = None"
      "index_hold_retry (index_hold_ret E) 0 = Some HoldOk" "dirty_inode_ret E = None"
    and del: "delete_xattr_items (items s) (i_ino s) (xattr_name_hash P name) t
                (SCOUTFS_XATTR_NR_PARTS P (length name) (length old)) [] = (r, its1, saved)"
    and p: "p * SCOUTFS_XATTR_MAX_PART_SIZE P < sizeof_xattr + length name + sz"
    and before: "\<forall>q<p. create_fault E (i_ino s, xattr_name_hash P name, next_xattr_id s, q) = None \<and>
                       map_of its1 (i_ino s, xattr_name_hash P name, next_xattr_id s, q) = None"
    and refuse: "create_fault E (i_ino s, xattr_name_hash P name, next_xattr_id s, p) = Some e \<or>
                 (create_fault E (i_ino s, xattr_name_hash P name, next_xattr_id s, p) = None \<and>
                  map_of its1 (i_ino s, xattr_name_hash P name, next_xattr_id s, p) \<noteq> None \<and>
                  e = EEXIST)"
    and n: "length old \<le> n" "sizeof_xattr + length name + n < 2 ^ 32"
  shows "r = None \<and>
         create_xattr_items P (create_fault E) its1 (i_ino s) (next_xattr_id s)
           (xattr_bytes name v sz) (sizeof_xattr + length name + sz) = (Some e, its1) \<and>
         scoutfs_item_restore its1 saved = items s \<and>
         scoutfs_xattr_set P E s name (Some v) sz flags =
           Some (Some e,
                 log_events [EvLockInode DLM_LOCK_EX, EvHoldTrans, EvReleaseTrans,
                             EvUnlock DLM_LOCK_EX]
                   (s\<lparr>next_xattr_id := (next_xattr_id s + 1) mod 2 ^ 64\<rparr>)) \<and>
         scoutfs_getxattr P E
             (log_events [EvLockInode DLM_LOCK_EX, EvHoldTrans, EvReleaseTrans,
                          EvUnlock DLM_LOCK_EX]
                (s\<lparr>next_xattr_id := (next_xattr_id s + 1) mod 2 ^ 64\<rparr>)) name buffer n =
           Some ((Inr (length old), old @ drop (length old) buffer),
                 log_events [EvLockInode DLM_LOCK_EX, EvHoldTrans, EvReleaseTrans,
                             EvUnlock DLM_LOCK_EX, EvLockInode DLM_LOCK_PR, EvUnlock DLM_LOCK_PR]
                   (s\<lparr>next_xattr_id := (next_xattr_id s + 1) mod 2 ^ 64\<rparr>))"
proof -
  let ?ps = "SCOUTFS_XATTR_MAX_PART_SIZE P"
  let ?xb = "xattr_bytes name v sz"
  let ?bytes = "sizeof_xattr + length name + sz"
  let ?k = "init_xattr_key (i_ino s) (xattr_name_hash P (take (xat_name_len ?xb) (xat_name ?xb)))
              (next_xattr_id s)"
  have ps: "0 < ?ps" using lim by (simp add: limits_ok_def sizeof_xattr_def)
  have big: "?bytes \<le> 256 * ?ps" using set_bytes_bound(2)[OF lim name(2) new(2)] by simp
  have n255: "length name \<le> 255" and v65535: "sz \<le> 65535"
    using lim name(2) new(2) by (auto simp: limits_ok_def)
  have kk: "?k = (i_ino s, xattr_name_hash P name, next_xattr_id s, 0)"
    using xattr_bytes_header(3)[OF n255 v65535, of v]
    by (simp add: init_xattr_key_def stored_name_def)
  have b: "\<forall>q. 0 \<le> q \<and> q < p \<longrightarrow>
             create_fault E (i_ino s, xattr_name_hash P name, next_xattr_id s, q) = None \<and>
             map_of its1 (i_ino s, xattr_name_hash P name, next_xattr_id s, q) = None"
    using before by simp
  from create_loop_refused[OF ps big p refuse le0 _ b, of 0 ?xb]
  obtain its2 where fail: "create_xattr_items P (create_fault E) its1 (i_ino s) (next_xattr_id s)
                              ?xb ?bytes = (Some e, its2)"
    unfolding create_xattr_items_def kk by auto
  note rb = create_failure_restores[OF lim wf old name olen new flags env del fail n, of buffer]
  from rb have its2: "its2 = its1" by blast
  from rb fail show ?thesis unfolding its2 by blast
qed


theorem failed_creation_rolls_back_witness:
  "create_fault E_fail (7, 6, 3, 1) = Some ENOSPC \<and>
   delete_xattr_items (items s_ex) 7 6 2 3 [] =
     (None, [((7, 6, 1, 0), [CHR 0x06, CHR 0x03, CHR 0x00] @ ''user.b'' @ ''bee'')],
      [((7, 6, 2, 2), ''nopqrstuvwxyz''), ((7, 6, 2, 1), ''789abcdefghijklm''),
       ((7, 6, 2, 0), [CHR 0x06, CHR 0x24, CHR 0x00] @ ''user.a'' @ ''0123456'')]) \<and>
   create_xattr_items P_ex (create_fault E_fail)
       [((7, 6, 1, 0), [CHR 0x06, CHR 0x03, CHR 0x00] @ ''user.b'' @ ''bee'')] 7 3
       (xattr_bytes ''user.a'' ''ABCDEFGHIJKLMNOPQRST'' 20) 29 =
     (Some ENOSPC, [((7, 6, 1, 0), [CHR 0x06, CHR 0x03, CHR 0x00] @ ''user.b'' @ ''bee'')]) \<and>
   scoutfs_xattr_set P_ex E_fail s_ex ''user.a'' (Some ''ABCDEFGHIJKLMNOPQRST'') 20 0 =
     Some (Some ENOSPC,
           s_ex\<lparr>next_xattr_id := 4,
                trace := [EvLockInode DLM_LOCK_EX, EvHoldTrans, EvReleaseTrans,
                          EvUnlock DLM_LOCK_EX]\<rparr>) \<and>
   scoutfs_getxattr P_ex E_fail
       (s_ex\<lparr>next_xattr_id := 4,
             trace := [EvLockInode DLM_LOCK_EX, EvHoldTrans, EvReleaseTrans,
                       EvUnlock DLM_LOCK_EX]\<rparr>)
       ''user.a'' ''....................................'' 36 =
     Some ((Inr 36, ''0123456789abcdefghijklmnopqrstuvwxyz''),
           s_ex\<lparr>next_xattr_id := 4,
                trace := [EvLockInode DLM_LOCK_EX, EvHoldTrans, EvReleaseTrans,
                          EvUnlock DLM_LOCK_EX, EvLockInode DLM_LOCK_PR,
                          EvUnlock DLM_LOCK_PR]\<rparr>)"
proof -
  let ?b = "[((7, 6, 1, 0), [CHR 0x06, CHR 0x03, CHR 0x00] @ ''user.b'' @ ''bee'')] :: store"
  let ?saved = "[((7, 6, 2, 2), ''nopqrstuvwxyz''), ((7, 6, 2, 1), ''789abcdefghijklm''),
       ((7, 6, 2, 0), [CHR 0x06, CHR 0x24, CHR 0x00] @ ''user.a'' @ ''0123456'')] :: store"
  have nm: "\<not> unknown_prefix ''user.a''" "length ''user.a'' \<le> SCOUTFS_XATTR_MAX_NAME_LEN P_ex"
    "length ''0123456789abcdefghijklmnopqrstuvwxyz'' \<le> SCOUTFS_XATTR_MAX_VAL_LEN P_ex"
    "length ''ABCDEFGHIJKLMNOPQRST'' = 20" "20 \<le> SCOUTFS_XATTR_MAX_VAL_LEN P_ex"
    "(0::int) = 0 \<or> (0::int) = XATTR_REPLACE"
    by (simp_all add: ex_defs)
  have env: "\<not> kmalloc_fails E_fail" "lock_inode_ret E_fail = None"
    "index_hold_retry (index_hold_ret E_fail) 0 = Some HoldOk" "dirty_inode_ret E_fail = None"
    by (simp_all add: E_fail_def E_ok_def index_hold_retry.simps)
  have del: "delete_xattr_items (items s_ex) (i_ino s_ex) (xattr_name_hash P_ex ''user.a'') 2
                (SCOUTFS_XATTR_NR_PARTS P_ex (length ''user.a'')
                   (length ''0123456789abcdefghijklmnopqrstuvwxyz'')) [] = (None, ?b, ?saved)"
    by (simp add: ex_defs eval_defs)
  have p: "1 * SCOUTFS_XATTR_MAX_PART_SIZE P_ex < sizeof_xattr + length ''user.a'' + 20"
    by (simp add: ex_defs)
  have before: "\<forall>q<1. create_fault E_fail
                         (i_ino s_ex, xattr_name_hash P_ex ''user.a'', next_xattr_id s_ex, q) = None \<and>
                       map_of ?b (i_ino s_ex, xattr_name_hash P_ex ''user.a'', next_xattr_id s_ex, q)
                         = None"
    by (simp add: E_fail_def ex_defs)
  have refuse: "create_fault E_fail
                    (i_ino s_ex, xattr_name_hash P_ex ''user.a'', next_xattr_id s_ex, 1)
                  = Some ENOSPC \<or>
                 (create_fault E_fail
                    (i_ino s_ex, xattr_name_hash P_ex ''user.a'', next_xattr_id s_ex, 1) = None \<and>
                  map_of ?b (i_ino s_ex, xattr_name_hash P_ex ''user.a'', next_xattr_id s_ex, 1)
                    \<noteq> None \<and>
                  ENOSPC = EEXIST)"
    by (simp add: E_fail_def ex_defs)
  have n: "length ''0123456789abcdefghijklmnopqrstuvwxyz'' \<le> 36"
    "sizeof_xattr + length ''user.a'' + 36 < 2 ^ 32"
    by (simp_all add: sizeof_xattr_def)
  have f: "create_fault E_fail (7, 6, 3, 1) = Some ENOSPC" by (simp add: E_fail_def)
  from failed_creation_rolls_back [OF ex_limits_ok ex_wf_store ex_stored_a nm env del p before
      refuse n, of "''....................................''"] del f
  show ?thesis by (simp add: log_events_def s_ex_def ex_defs)
qed

section \<open>A part that is lost\<close>

text \<open>
  Claim C3 as stated fails, in both halves.  In the store \<open>s_lost\<close> the header of
  \<open>user.a\<close> declares three parts and the second one is absent: the size query of
  \<open>scoutfs_getxattr\<close> reads the first part only and returns the length of the value, a
  buffer of 7 bytes is filled by the first part and the answer is \<open>-ERANGE\<close>, and
  \<open>scoutfs_listxattr\<close>, which reads first parts only, lists both names.  In the store
  \<open>s_headless\<close> the first part of \<open>user.a\<close> is absent and its continuation parts are left:
  the scan for the name runs into them and the answer is \<open>-EIO\<close>, not \<open>-ENODATA\<close>.
\<close>

theorem lost_part_counterexample:
  "xattr_nr_parts P_ex (the (map_of (items s_lost) (7, 6, 2, 0))) = 3 \<and>
   map_of (items s_lost) (7, 6, 2, 1) = None \<and>
   scoutfs_getxattr P_ex E_ok s_lost ''user.a'' [] 0 =
     Some ((Inr 36, []), s_lost\<lparr>trace := [EvLockInode DLM_LOCK_PR, EvUnlock DLM_LOCK_PR]\<rparr>) \<and>
   scoutfs_getxattr P_ex E_ok s_lost ''user.a'' ''.......'' 7 =
     Some ((Inl ERANGE, ''.......''),
           s_lost\<lparr>trace := [EvLockInode DLM_LOCK_PR, EvUnlock DLM_LOCK_PR]\<rparr>) \<and>
   scoutfs_listxattr P_ex E_ok s_lost (replicate 14 CHR ''.'') 14 =
     Some ((Inr 14, ''user.b'' @ [CHR 0x00] @ ''user.a'' @ [CHR 0x00]),
           s_lost\<lparr>trace := [EvLockInode DLM_LOCK_PR, EvUnlock DLM_LOCK_PR]\<rparr>) \<and>
   map_of (items s_headless) (7, 6, 2, 0) = None \<and>
   scoutfs_getxattr P_ex E_ok s_headless ''user.a'' [] 0 =
     Some ((Inl EIO, []), s_headless\<lparr>trace := [EvLockInode DLM_LOCK_PR, EvUnlock DLM_LOCK_PR]\<rparr>)"
  by (simp add: s_lost_def s_headless_def P_ex_def E_ok_def unknown_prefix_def
      XATTR_USER_PREFIX_def
      sizeof_xattr_def log_events_def xat_name_len_def xat_val_len_def xat_name_def
      xattr_name_hash_def U32_MAX_def U64_MAX_def xattr_nr_parts_def SCOUTFS_XATTR_NR_PARTS_def
      scoutfs_listxattr_def listxattr_loop.simps eval_defs)

lemma stored_names_first:
  assumes lim: "limits_ok P"
    and st: "map_of its (ino, xattr_name_hash P name, xid, 0) =
               Some (take (SCOUTFS_XATTR_MAX_PART_SIZE P) (xattr_bytes name val (length val)))"
    and nlen: "length name \<le> SCOUTFS_XATTR_MAX_NAME_LEN P"
    and vlen: "length val \<le> SCOUTFS_XATTR_MAX_VAL_LEN P"
  shows "name \<in> set (stored_names ino its)"
proof -
  from st have "((ino, xattr_name_hash P name, xid, 0),
                 take (SCOUTFS_XATTR_MAX_PART_SIZE P) (xattr_bytes name val (length val))) \<in> set its"
    by (rule map_of_SomeD)
  with first_chunk_ok(3)[OF lim nlen vlen] show ?thesis by (force simp: stored_names_def)
qed

lemma listxattr_wf:
  assumes lim: "limits_ok P" and wf: "wf_store P (i_ino s) (items s)"
    and env: "\<not> kmalloc_fails E" "lock_inode_ret E = None"
    and fits: "sz = 0 \<or> length (names_buffer (stored_names (i_ino s) (items s))) \<le> sz"
  shows "scoutfs_listxattr P E s buffer sz =
           Some ((Inr (length (names_buffer (stored_names (i_ino s) (items s)))),
                  if sz \<noteq> 0
                  then names_buffer (stored_names (i_ino s) (items s))
                       @ drop (length (names_buffer (stored_names (i_ino s) (items s)))) buffer
                  else buffer),
                 log_events [EvLockInode DLM_LOCK_PR, EvUnlock DLM_LOCK_PR] s)"
proof -
  let ?ns = "stored_names (i_ino s) (items s)"
  have "listxattr_loop P (items s) (i_ino s) (sizeof_xattr + SCOUTFS_XATTR_MAX_NAME_LEN P)
             sz 0 0 0 [] = Some (Inr (length (names_buffer ?ns)),
                                 if sz \<noteq> 0 then names_buffer ?ns else [])"
    using listxattr_loop_wf[OF wf lim refl, of sz 0 0 0 "[]"] fits
    by (simp add: rest_names_all[unfolded init_xattr_key_def])
  then show ?thesis using env by (simp add: scoutfs_listxattr_def Let_def)
qed

text \<open>
  Claim C3, amended.  Let the store be well formed (every item belongs to an xattr whose
  first part is stored), let the first \<open>m\<close> parts of the xattr \<open>name = val\<close> be stored,
  \<open>0 < m\<close>, and let part \<open>m\<close> be absent although the header counts it.  Then
  \<^item> \<open>scoutfs_getxattr\<close> for the name fails with \<open>-EIO\<close> exactly when its buffer size makes it
    read part \<open>m\<close>, that is when \<open>m\<close> times the part size is below the size of the header,
    the name and the buffer; otherwise it answers as for an intact xattr, the length of the
    value for size 0 and \<open>-ERANGE\<close> for any other size; it never answers \<open>-ENODATA\<close>, and
    the caller's buffer is as it was;
  \<^item> every buffer that holds the whole value is in the first case;
  \<^item> \<open>scoutfs_listxattr\<close> with a buffer that holds all names returns the stored names,
    and the name is among them; with size 0 it returns their total length;
  \<^item> for a name that no first part carries \<open>scoutfs_getxattr\<close> fails with \<open>-ENODATA\<close>.

  (Sizes are such that the 32-bit length of the scratch buffer does not wrap.)
\<close>

theorem lost_part_reached_is_corruption:
  assumes lim: "limits_ok P" and wf: "wf_store P (i_ino s) (items s)"
    and st: "parts_stored P (items s) (i_ino s) t name val m"
    and m: "0 < m" "m < SCOUTFS_XATTR_NR_PARTS P (length name) (length val)"
    and miss: "map_of (items s) (i_ino s, xattr_name_hash P name, t, m) = None"
    and name: "\<not> unknown_prefix name" "length name \<le> SCOUTFS_XATTR_MAX_NAME_LEN P"
    and vlen: "length val \<le> SCOUTFS_XATTR_MAX_VAL_LEN P"
    and env: "\<not> kmalloc_fails E" "lock_inode_ret E = None"
    and sz: "sizeof_xattr + length name + sz < 2 ^ 32"
    and fits: "length (names_buffer (stored_names (i_ino s) (items s))) \<le> lsz"
    and name': "\<not> unknown_prefix name'" "length name' \<le> SCOUTFS_XATTR_MAX_NAME_LEN P"
      "name_absent (i_ino s) (items s) name'" "sizeof_xattr + length name' + sz' < 2 ^ 32"
  shows "scoutfs_getxattr P E s name buffer sz =
           Some ((if m * SCOUTFS_XATTR_MAX_PART_SIZE P < sizeof_xattr + length name + sz
                  then Inl EIO
                  else if sz = 0 then Inr (length val) else Inl ERANGE, buffer),
                 log_events [EvLockInode DLM_LOCK_PR, EvUnlock DLM_LOCK_PR] s) \<and>
         m * SCOUTFS_XATTR_MAX_PART_SIZE P < sizeof_xattr + length name + length val \<and>
         scoutfs_listxattr P E s lbuf lsz =
           Some ((Inr (length (names_buffer (stored_names (i_ino s) (items s)))),
                  names_buffer (stored_names (i_ino s) (items s))
                    @ drop (length (names_buffer (stored_names (i_ino s) (items s)))) lbuf),
                 log_events [EvLockInode DLM_LOCK_PR, EvUnlock DLM_LOCK_PR] s) \<and>
         scoutfs_listxattr P E s lbuf 0 =
           Some ((Inr (length (names_buffer (stored_names (i_ino s) (items s)))), lbuf),
                 log_events [EvLockInode DLM_LOCK_PR, EvUnlock DLM_LOCK_PR] s) \<and>
         name \<in> set (stored_names (i_ino s) (items s)) \<and>
         scoutfs_getxattr P E s name' buffer sz' =
           Some ((Inl ENODATA, buffer),
                 log_events [EvLockInode DLM_LOCK_PR, EvUnlock DLM_LOCK_PR] s)"
proof (intro conjI)
  let ?lastk = "init_xattr_key (i_ino s) U32_MAX U64_MAX"
  let ?H = "xattr_name_hash P name"
  let ?ps = "SCOUTFS_XATTR_MAX_PART_SIZE P"
  let ?enc = "xattr_bytes name val (length val)"
  let ?N = "SCOUTFS_XATTR_NR_PARTS P (length name) (length val)"
  let ?bytes = "sizeof_xattr + length name + sz"
  let ?ns = "stored_names (i_ino s) (items s)"
  have ne: "name \<noteq> []" by (rule known_prefix_nonempty[OF name(1)])
  have ps: "0 < ?ps" using lim by (simp add: limits_ok_def sizeof_xattr_def)
  have n255: "length name \<le> 255" and v65535: "length val \<le> 65535"
    using lim name(2) vlen by (auto simp: limits_ok_def)
  note hdr = xattr_bytes_header[OF n255 v65535, of val]
  show mlen: "m * ?ps < sizeof_xattr + length name + length val"
    using m(2) nr_parts_less_iff[OF ps] by simp
  have b: "sizeof_xattr + length name \<le> ?bytes" by simp
  note up = get_next_xattr_upto[OF wf lim st m(1) less_imp_le[OF m(2)] ne name(2) vlen b
      refl refl refl refl, of 0]
  have small: "?bytes mod 2 ^ 32 = ?bytes" using sz by simp
  show "scoutfs_getxattr P E s name buffer sz =
           Some ((if m * ?ps < ?bytes then Inl EIO
                  else if sz = 0 then Inr (length val) else Inl ERANGE, buffer),
                 log_events [EvLockInode DLM_LOCK_PR, EvUnlock DLM_LOCK_PR] s)"
  proof (cases "m * ?ps < ?bytes")
    case True
    with up m(2)
    have "get_next_xattr P (items s) (i_ino s) ?bytes name 0 0 =
        get_next_loop P (items s) name ?bytes ?H ?lastk
          (i_ino s, ?H, t, 0) (take (m * ?ps) ?enc) (?N - 1) m"
      by simp
    with read_missing[OF wf m(1) miss] obtain k x where
      "get_next_xattr P (items s) (i_ino s) ?bytes name 0 0 = Some (Inl EIO, k, x)"
      by metis
    then show ?thesis using name env small True by (simp add: scoutfs_getxattr_def Let_def)
  next
    case False
    with up obtain q where g: "get_next_xattr P (items s) (i_ino s) ?bytes name 0 0 =
        Some (Inr (min ?bytes (length ?enc)), (i_ino s, ?H, t, q), take ?bytes ?enc)"
      by auto
    have vl: "xat_val_len (take ?bytes ?enc) = length val"
      "xat_val_len (take (sizeof_xattr + length name) ?enc) = length val"
      using hdr(2) by (simp_all add: hdr_take)
    from False mlen have short: "sz < length val" by simp
    show ?thesis using g name env small False vl short
      by (simp add: scoutfs_getxattr_def Let_def)
  qed
  have pos: "0 < length (names_buffer ?ns)" and mem: "name \<in> set ?ns"
  proof -
    from st m(1) have "map_of (items s) (i_ino s, ?H, t, 0) = Some (take ?ps ?enc)"
      by (simp add: parts_stored_def)
    from stored_names_first[OF lim this name(2) vlen] show "name \<in> set ?ns" .
    then show "0 < length (names_buffer ?ns)" by (cases ?ns) (auto simp: names_buffer_def)
  qed
  show "name \<in> set ?ns" by (rule mem)
  from pos fits have "lsz \<noteq> 0" by linarith
  with listxattr_wf[OF lim wf env, of lsz lbuf] fits
  show "scoutfs_listxattr P E s lbuf lsz =
           Some ((Inr (length (names_buffer ?ns)),
                  names_buffer ?ns @ drop (length (names_buffer ?ns)) lbuf),
                 log_events [EvLockInode DLM_LOCK_PR, EvUnlock DLM_LOCK_PR] s)"
    by simp
  from listxattr_wf[OF lim wf env, of 0 lbuf]
  show "scoutfs_listxattr P E s lbuf 0 =
           Some ((Inr (length (names_buffer ?ns)), lbuf),
                 log_events [EvLockInode DLM_LOCK_PR, EvUnlock DLM_LOCK_PR] s)"
    by simp
  have ne': "name' \<noteq> []" by (rule known_prefix_nonempty[OF name'(1)])
  from get_next_xattr_absent[OF wf ne' _ name'(3), of "sizeof_xattr + length name' + sz'" 0 0]
  obtain k x where "get_next_xattr P (items s) (i_ino s) (sizeof_xattr + length name' + sz') name' 0 0
        = Some (Inl ENOENT, k, x)" by auto
  then show "scoutfs_getxattr P E s name' buffer sz' =
           Some ((Inl ENODATA, buffer),
                 log_events [EvLockInode DLM_LOCK_PR, EvUnlock DLM_LOCK_PR] s)"
    using name' env by (simp add: scoutfs_getxattr_def Let_def)
qed


theorem lost_part_reached_is_corruption_witness:
  "scoutfs_getxattr P_ex E_ok s_lost ''user.a'' (replicate 36 CHR ''.'') 36 =
     Some ((Inl EIO, replicate 36 CHR ''.''),
           s_lost\<lparr>trace := [EvLockInode DLM_LOCK_PR, EvUnlock DLM_LOCK_PR]\<rparr>) \<and>
   scoutfs_getxattr P_ex E_ok s_lost ''user.a'' (replicate 36 CHR ''.'') 8 =
     Some ((Inl EIO, replicate 36 CHR ''.''),
           s_lost\<lparr>trace := [EvLockInode DLM_LOCK_PR, EvUnlock DLM_LOCK_PR]\<rparr>) \<and>
   scoutfs_getxattr P_ex E_ok s_lost ''user.a'' (replicate 36 CHR ''.'') 7 =
     Some ((Inl ERANGE, replicate 36 CHR ''.''),
           s_lost\<lparr>trace := [EvLockInode DLM_LOCK_PR, EvUnlock DLM_LOCK_PR]\<rparr>) \<and>
   scoutfs_getxattr P_ex E_ok s_lost ''user.a'' (replicate 36 CHR ''.'') 0 =
     Some ((Inr 36, replicate 36 CHR ''.''),
           s_lost\<lparr>trace := [EvLockInode DLM_LOCK_PR, EvUnlock DLM_LOCK_PR]\<rparr>) \<and>
   scoutfs_listxattr P_ex E_ok s_lost ''................'' 14 =
     Some ((Inr 14, ''user.b'' @ [CHR 0x00] @ ''user.a'' @ [CHR 0x00] @ ''..''),
           s_lost\<lparr>trace := [EvLockInode DLM_LOCK_PR, EvUnlock DLM_LOCK_PR]\<rparr>) \<and>
   scoutfs_getxattr P_ex E_ok s_lost ''user.c'' (replicate 36 CHR ''.'') 0 =
     Some ((Inl ENODATA, replicate 36 CHR ''.''),
           s_lost\<lparr>trace := [EvLockInode DLM_LOCK_PR, EvUnlock DLM_LOCK_PR]\<rparr>)"
proof -
  have wf: "wf_store P_ex (i_ino s_lost) (items s_lost)"
    by (simp add: ex_defs)
  have st: "parts_stored P_ex (items s_lost) (i_ino s_lost) 2 ''user.a''
              ''0123456789abcdefghijklmnopqrstuvwxyz'' 1"
    by (simp add: ex_defs char_eq_char_of)
  have m: "0 < (1::nat)"
    "1 < SCOUTFS_XATTR_NR_PARTS P_ex (length ''user.a'')
           (length ''0123456789abcdefghijklmnopqrstuvwxyz'')"
    "map_of (items s_lost) (i_ino s_lost, xattr_name_hash P_ex ''user.a'', 2, 1) = None"
    by (simp_all add: ex_defs)
  have n: "\<not> unknown_prefix ''user.a''" "length ''user.a'' \<le> SCOUTFS_XATTR_MAX_NAME_LEN P_ex"
    "length ''0123456789abcdefghijklmnopqrstuvwxyz'' \<le> SCOUTFS_XATTR_MAX_VAL_LEN P_ex"
    by (simp_all add: ex_defs)
  have z: "sizeof_xattr + length ''user.a'' + 36 < 2 ^ 32"
    "sizeof_xattr + length ''user.a'' + 8 < 2 ^ 32"
    "sizeof_xattr + length ''user.a'' + 7 < 2 ^ 32"
    "sizeof_xattr + length ''user.a'' + 0 < 2 ^ 32"
    by (simp_all add: sizeof_xattr_def)
  have ns: "stored_names (i_ino s_lost) (items s_lost) = [''user.b'', ''user.a'']"
    by (simp add: stored_names_def ex_defs)
  have fits: "length (names_buffer (stored_names (i_ino s_lost) (items s_lost))) \<le> 14"
    by (simp add: ns names_buffer_def)
  have n': "\<not> unknown_prefix ''user.c''" "length ''user.c'' \<le> SCOUTFS_XATTR_MAX_NAME_LEN P_ex"
    "name_absent (i_ino s_lost) (items s_lost) ''user.c''"
    "sizeof_xattr + length ''user.c'' + 0 < 2 ^ 32"
    by (simp_all add: ex_defs)
  note t = lost_part_reached_is_corruption [OF ex_limits_ok wf st m n ex_env_ok _ fits n',
      of _ "replicate 36 CHR ''.''" "''................''"]
  from t[OF z(1)] t[OF z(2)] t[OF z(3)] t[OF z(4)] ns
  show ?thesis by (simp add: log_events_def s_lost_def names_buffer_def P_ex_def sizeof_xattr_def)
qed

section \<open>Setting a value and reading it back\<close>

subsection \<open>What the two loops do when they succeed\<close>




subsection \<open>Well-formed stores as maps\<close>









subsection \<open>Removing and adding a whole xattr\<close>




subsection \<open>The set function\<close>







end
